theory Spec2Isabelle
  imports Main
begin

section \<open>Strings and numbers of the host language\<close>

text \<open>
  The editor is TypeScript. A source string is modelled as a \<^typ>\<open>string\<close>, a list of
  8-bit characters (the Latin-1 range of the UTF-16 code units), \<open>null\<close> and
  \<open>undefined\<close> as \<open>None\<close>, and an integral \<open>number\<close> as an \<^typ>\<open>int\<close>
  (exact below \<open>2 ^ 53\<close>, where the source's doubles are exact too); \<open>NaN\<close> is a
  value of its own wherever the source can produce it.
\<close>

definition isStrWhiteSpaceChar :: "char \<Rightarrow> bool" where
  \<comment> \<open>the white space and line terminators that \<open>parseInt\<close> and \<open>trim\<close> skip\<close>
  "isStrWhiteSpaceChar c =
     (c = CHR 0x09 \<or> c = CHR 0x0A \<or> c = CHR 0x0B \<or> c = CHR 0x0C \<or> c = CHR 0x0D
      \<or> c = CHR '' '' \<or> c = CHR 0xA0)"

definition radixDigit :: "nat \<Rightarrow> char \<Rightarrow> nat option" where
  \<comment> \<open>the value of a character as a digit of radix \<open>R\<close>, if it is one\<close>
  "radixDigit R c =
     (let n = (of_char c :: nat);
          d = (if 48 \<le> n \<and> n \<le> 57 then Some (n - 48)
               else if 97 \<le> n \<and> n \<le> 122 then Some (n - 87)
               else if 65 \<le> n \<and> n \<le> 90 then Some (n - 55)
               else None)
      in case d of None \<Rightarrow> None | Some v \<Rightarrow> if v < R then Some v else None)"

definition radixValue :: "nat \<Rightarrow> string \<Rightarrow> nat" where
  "radixValue R Z = foldl (\<lambda>a c. a * R + (case radixDigit R c of None \<Rightarrow> 0 | Some v \<Rightarrow> v)) 0 Z"

text \<open>
  \<open>parseInt\<close> returns a double in the source: a digit string whose value is above
  \<open>2 ^ 53\<close> is rounded there and exact here. Nothing below states the value of such
  an input.
\<close>

definition parseInt :: "string \<Rightarrow> int option" where
  \<comment> \<open>\<open>parseInt(s)\<close> with no radix argument; \<open>None\<close> is \<open>NaN\<close>\<close>
  "parseInt inputString =
     (let S = dropWhile isStrWhiteSpaceChar inputString;
          sign = (if take 1 S = ''-'' then - 1 else (1::int));
          S1 = (if take 1 S = ''+'' \<or> take 1 S = ''-'' then drop 1 S else S);
          hex = (take 2 S1 = ''0x'' \<or> take 2 S1 = ''0X'');
          R = (if hex then 16 else 10);
          S2 = (if hex then drop 2 S1 else S1);
          Z = takeWhile (\<lambda>c. radixDigit R c \<noteq> None) S2
      in if Z = [] then None else Some (sign * int (radixValue R Z)))"

definition orNull :: "int option \<Rightarrow> int option" where
  \<comment> \<open>\<open>x || null\<close> for a number \<open>x\<close>: \<open>NaN\<close> and zero are falsy\<close>
  "orNull x = (case x of None \<Rightarrow> None | Some n \<Rightarrow> if n = 0 then None else Some n)"

fun splitFrom :: "string \<Rightarrow> string \<Rightarrow> string \<Rightarrow> string list" where
  "splitFrom sep acc [] = [rev acc]"
| "splitFrom sep acc (c # cs) =
     (if sep \<noteq> [] \<and> take (length sep) (c # cs) = sep
      then rev acc # splitFrom sep [] (drop (length sep) (c # cs))
      else splitFrom sep (c # acc) cs)"

definition split :: "string \<Rightarrow> string \<Rightarrow> string list" where
  \<comment> \<open>\<open>s.split(sep)\<close> for a non-empty separator\<close>
  "split sep s = splitFrom sep [] s"

definition trim :: "string \<Rightarrow> string" where
  "trim s = rev (dropWhile isStrWhiteSpaceChar (rev (dropWhile isStrWhiteSpaceChar s)))"

fun join :: "string \<Rightarrow> string list \<Rightarrow> string" where
  "join sep [] = []"
| "join sep [x] = x"
| "join sep (x # y # ys) = x @ sep @ join sep (y # ys)"

definition digitChar :: "nat \<Rightarrow> char" where
  "digitChar d = char_of (48 + d)"

fun showNat :: "nat \<Rightarrow> string" where
  "showNat n = (if n < 10 then [digitChar n] else showNat (n div 10) @ [digitChar (n mod 10)])"

declare showNat.simps [simp del]

definition String :: "int \<Rightarrow> string" where
  \<comment> \<open>\<open>String(n)\<close> for an integral number\<close>
  "String n = (if n < 0 then CHR ''-'' # showNat (nat (- n)) else showNat (nat n))"

definition nthOrUndefined :: "'a list \<Rightarrow> nat \<Rightarrow> 'a option" where
  \<comment> \<open>\<open>xs[i]\<close>: \<open>undefined\<close> out of range\<close>
  "nthOrUndefined xs i = (if i < length xs then Some (xs ! i) else None)"

section \<open>Field state and the reconciler\<close>

text \<open>
  \<open>FieldState<T>\<close> has the kinds uniform, divergent and edited. On an empty track list
  \<open>computeField\<close> reads \<open>values[0]\<close>, which is \<open>undefined\<close> and not a \<open>T\<close>: the
  object \<open>{kind: "uniform", value: undefined}\<close> it returns there is the fourth
  constructor.
\<close>

datatype 'a FieldState =
    Uniform 'a
  | Divergent "'a list"
  | Edited 'a
  | UniformUndefined

definition computeField :: "'r list \<Rightarrow> ('r \<Rightarrow> 'a) \<Rightarrow> ('a \<Rightarrow> 'a \<Rightarrow> bool) \<Rightarrow> 'a FieldState" where
  "computeField tracks extract eq =
     (let values = map extract tracks in
      case nthOrUndefined values 0 of
        None \<Rightarrow> UniformUndefined
      | Some v0 \<Rightarrow> if list_all (\<lambda>v. eq v v0) values then Uniform v0 else Divergent values)"

definition displayValue :: "'a FieldState \<Rightarrow> 'a option" where
  "displayValue fs =
     (case fs of Divergent _ \<Rightarrow> None | Uniform v \<Rightarrow> Some v | Edited v \<Rightarrow> Some v
      | UniformUndefined \<Rightarrow> None)"

definition isEdited :: "'a FieldState \<Rightarrow> bool" where
  "isEdited fs = (case fs of Edited _ \<Rightarrow> True | _ \<Rightarrow> False)"

section \<open>The position parser\<close>

record TrackDisc =
  num :: "int option"
  total :: "int option"

definition parseTrackDisc :: "string option \<Rightarrow> TrackDisc" where
  "parseTrackDisc val =
     (case val of
        None \<Rightarrow> \<lparr>num = None, total = None\<rparr>
      | Some v \<Rightarrow>
          if v = [] then \<lparr>num = None, total = None\<rparr>
          else
            let parts = split ''/'' v in
            \<lparr>num = (case nthOrUndefined parts 0 of
                      None \<Rightarrow> None
                    | Some p \<Rightarrow> orNull (parseInt p)),
             total = (case nthOrUndefined parts 1 of
                        None \<Rightarrow> None
                      | Some p \<Rightarrow> if p = [] then None else orNull (parseInt p))\<rparr>)"

text \<open>
  The two pieces of an input that the parser reads, written without \<open>split\<close>: the
  reference for what the number and the total are parsed from.
\<close>

definition numeratorText :: "string \<Rightarrow> string" where
  \<comment> \<open>the text before the first slash\<close>
  "numeratorText v = takeWhile (\<lambda>c. c \<noteq> CHR ''/'') v"

definition denominatorText :: "string \<Rightarrow> string option" where
  \<comment> \<open>the text between the first slash and the second, if there is a slash\<close>
  "denominatorText v =
     (if CHR ''/'' \<in> set v
      then Some (takeWhile (\<lambda>c. c \<noteq> CHR ''/'') (drop 1 (dropWhile (\<lambda>c. c \<noteq> CHR ''/'') v)))
      else None)"

section \<open>Regular expressions and the validator registry\<close>

text \<open>
  The validators are anchored regular expressions applied with \<open>test\<close>. A pattern
  \<open>/^r$/\<close> (no flags) accepts a string when \<open>r\<close> matches all of it. Patterns are
  syntax trees, and \<open>test\<close> decides a match by taking the derivative of the pattern at
  each character.
\<close>

datatype regex =
    Never
  | Empty
  | Cls "char list"
  | Alt regex regex
  | Seq regex regex
  | Star regex

definition Plus :: "regex \<Rightarrow> regex" where
  \<comment> \<open>\<open>r+\<close>\<close>
  "Plus r = Seq r (Star r)"

definition Opt :: "regex \<Rightarrow> regex" where
  \<comment> \<open>\<open>r?\<close>\<close>
  "Opt r = Alt r Empty"

fun Rep :: "nat \<Rightarrow> regex \<Rightarrow> regex" where
  \<comment> \<open>\<open>r{n}\<close>\<close>
  "Rep 0 r = Empty"
| "Rep (Suc n) r = Seq r (Rep n r)"

fun nullable :: "regex \<Rightarrow> bool" where
  "nullable Never = False"
| "nullable Empty = True"
| "nullable (Cls cs) = False"
| "nullable (Alt r s) = (nullable r \<or> nullable s)"
| "nullable (Seq r s) = (nullable r \<and> nullable s)"
| "nullable (Star r) = True"

fun deriv :: "char \<Rightarrow> regex \<Rightarrow> regex" where
  "deriv c Never = Never"
| "deriv c Empty = Never"
| "deriv c (Cls cs) = (if c \<in> set cs then Empty else Never)"
| "deriv c (Alt r s) = Alt (deriv c r) (deriv c s)"
| "deriv c (Seq r s) =
     (if nullable r then Alt (Seq (deriv c r) s) (deriv c s) else Seq (deriv c r) s)"
| "deriv c (Star r) = Seq (deriv c r) (Star r)"

fun test :: "regex \<Rightarrow> string \<Rightarrow> bool" where
  "test r [] = nullable r"
| "test r (c # cs) = test (deriv c r) cs"

definition digit :: regex where
  \<comment> \<open>\<open>\d\<close>\<close>
  "digit = Cls ''0123456789''"

definition lower :: regex where
  \<comment> \<open>\<open>[a-z]\<close>\<close>
  "lower = Cls ''abcdefghijklmnopqrstuvwxyz''"

definition upper :: regex where
  \<comment> \<open>\<open>[A-Z]\<close>\<close>
  "upper = Cls ''ABCDEFGHIJKLMNOPQRSTUVWXYZ''"

definition upperOrDigit :: regex where
  \<comment> \<open>\<open>[A-Z0-9]\<close>\<close>
  "upperOrDigit = Cls ''ABCDEFGHIJKLMNOPQRSTUVWXYZ0123456789''"

definition toNumber :: "string \<Rightarrow> int" where
  \<comment> \<open>unary \<open>+v\<close>, read only where \<open>v\<close> has passed \<open>/^\d{4}$/\<close>: the decimal value\<close>
  "toNumber v = int (radixValue 10 v)"

type_synonym Validator = "string \<Rightarrow> string option"

text \<open>
  A validator returns \<open>None\<close> (the source's \<open>null\<close>) for a valid input and the error
  message otherwise. The year message has an en dash in the source, written as a hyphen
  here.
\<close>

definition bpm_validator :: Validator where
  \<comment> \<open>\<open>/^\d+$/\<close>\<close>
  "bpm_validator v =
     (if test (Plus digit) v then None else Some ''Must be a non-negative integer'')"

definition year_validator :: Validator where
  \<comment> \<open>\<open>/^\d{4}$/.test(v) && +v >= 1000 && +v <= 2099\<close>\<close>
  "year_validator v =
     (if test (Rep 4 digit) v \<and> toNumber v \<ge> 1000 \<and> toNumber v \<le> 2099 then None
      else Some ''4-digit year (1000-2099)'')"

definition trackNumber_validator :: Validator where
  \<comment> \<open>\<open>/^\d+(\/\d+)?$/\<close>\<close>
  "trackNumber_validator v =
     (if test (Seq (Plus digit) (Opt (Seq (Cls ''/'') (Plus digit)))) v then None
      else Some ''Must be N or N/Total'')"

definition discNumber_validator :: Validator where
  \<comment> \<open>\<open>/^\d+(\/\d+)?$/\<close>\<close>
  "discNumber_validator v =
     (if test (Seq (Plus digit) (Opt (Seq (Cls ''/'') (Plus digit)))) v then None
      else Some ''Must be N or N/Total'')"

definition commentLang_validator :: Validator where
  \<comment> \<open>\<open>/^[a-z]{3}$/\<close>\<close>
  "commentLang_validator v =
     (if test (Rep 3 lower) v then None else Some ''3 lowercase letters (ISO 639-2)'')"

definition lyricsLang_validator :: Validator where
  \<comment> \<open>\<open>/^[a-z]{3}$/\<close>\<close>
  "lyricsLang_validator v =
     (if test (Rep 3 lower) v then None else Some ''3 lowercase letters (ISO 639-2)'')"

definition TKEY_validator :: Validator where
  \<comment> \<open>\<open>/^[A-G][b#]?m?$/\<close>\<close>
  "TKEY_validator v =
     (if test (Seq (Cls ''ABCDEFG'') (Seq (Opt (Cls ''b#'')) (Opt (Cls ''m'')))) v then None
      else Some ''Invalid musical key (e.g. Am, C#, Db)'')"

definition TSRC_validator :: Validator where
  \<comment> \<open>\<open>/^[A-Z]{2}[A-Z0-9]{3}\d{7}$/\<close>\<close>
  "TSRC_validator v =
     (if test (Seq (Rep 2 upper) (Seq (Rep 3 upperOrDigit) (Rep 7 digit))) v then None
      else Some ''Invalid ISRC'')"

text \<open>
  The registry is an object literal with eight own keys. A lookup under a key that
  \<open>Object.prototype\<close> defines (\<open>toString\<close>, \<open>constructor\<close>) finds the inherited
  function in the source and nothing here; extra-tag frame identifiers are the only keys
  looked up that are not literals, and for such an identifier the source records an
  error where the model records none.
\<close>

definition FIELD_VALIDATORS :: "string \<Rightarrow> Validator option" where
  \<comment> \<open>the registry, looked up by field key or frame identifier\<close>
  "FIELD_VALIDATORS key =
     (if key = ''bpm'' then Some bpm_validator
      else if key = ''year'' then Some year_validator
      else if key = ''trackNumber'' then Some trackNumber_validator
      else if key = ''discNumber'' then Some discNumber_validator
      else if key = ''commentLang'' then Some commentLang_validator
      else if key = ''lyricsLang'' then Some lyricsLang_validator
      else if key = ''TKEY'' then Some TKEY_validator
      else if key = ''TSRC'' then Some TSRC_validator
      else None)"

subsection \<open>What a pattern matches\<close>

text \<open>
  The strings a pattern matches, as sets: the reference the matcher is checked against.
\<close>

inductive_set star :: "string set \<Rightarrow> string set" for A :: "string set" where
  star_empty: "[] \<in> star A"
| star_step: "u \<in> A \<Longrightarrow> v \<in> star A \<Longrightarrow> u @ v \<in> star A"

definition conc :: "string set \<Rightarrow> string set \<Rightarrow> string set" where
  "conc A B = {u @ v | u v. u \<in> A \<and> v \<in> B}"

definition chars :: "char list \<Rightarrow> string set" where
  "chars cs = {[c] | c. c \<in> set cs}"

fun lang :: "regex \<Rightarrow> string set" where
  "lang Never = {}"
| "lang Empty = {[]}"
| "lang (Cls cs) = chars cs"
| "lang (Alt r s) = lang r \<union> lang s"
| "lang (Seq r s) = conc (lang r) (lang s)"
| "lang (Star r) = star (lang r)"

text \<open>A position is \<open>N\<close> or \<open>N/Total\<close>, both non-empty runs of decimal digits.\<close>

definition isPosition :: "string \<Rightarrow> bool" where
  "isPosition v \<longleftrightarrow>
     (\<exists>n. n \<noteq> [] \<and> set n \<subseteq> set ''0123456789''
        \<and> (v = n \<or> (\<exists>t. t \<noteq> [] \<and> set t \<subseteq> set ''0123456789'' \<and> v = n @ ''/'' @ t)))"

section \<open>Records, the edit state and its reconciliation\<close>

text \<open>
  \<open>TrackRow\<close> is declared in the generated bindings; the fields are the ones the editor
  reads. The read-only technical attributes take no part in the edit state and are left
  out.
\<close>

record TrackRow =
  id :: int
  title :: string
  artistName :: "string option"
  albumTitle :: "string option"
  albumArtist :: "string option"
  composer :: "string option"
  year :: "int option"
  genre :: "string option"
  trackNumber :: "int option"
  trackTotal :: "int option"
  discNumber :: "int option"
  discTotal :: "int option"
  bpm :: "int option"
  comment :: "string option"
  commentLang :: "string option"
  lyrics :: "string option"
  lyricsLang :: "string option"

record EditState =
  title :: "string FieldState"
  artistNames :: "string list FieldState"
  albumTitle :: "string option FieldState"
  albumArtist :: "string option FieldState"
  composer :: "string option FieldState"
  year :: "string option FieldState"
  genre :: "string option FieldState"
  trackNumber :: "string option FieldState"
  discNumber :: "string option FieldState"
  bpm :: "string option FieldState"
  comment :: "string option FieldState"
  commentLang :: "string option FieldState"
  lyrics :: "string option FieldState"
  lyricsLang :: "string option FieldState"

definition truthy :: "string option \<Rightarrow> bool" where
  \<comment> \<open>a string or \<open>null\<close> in a condition: \<open>null\<close> and the empty string are falsy\<close>
  "truthy v = (case v of None \<Rightarrow> False | Some s \<Rightarrow> s \<noteq> [])"

definition extractArtistNames :: "TrackRow \<Rightarrow> string list" where
  "extractArtistNames t =
     (if truthy (TrackRow.artistName t)
      then filter (\<lambda>s. s \<noteq> []) (map trim (split '' / '' (the (TrackRow.artistName t))))
      else [])"

definition extractPosition :: "int option \<Rightarrow> int option \<Rightarrow> string option" where
  \<comment> \<open>the projection of a number and its total to \<open>N\<close> or \<open>N/Total\<close>\<close>
  "extractPosition n tot =
     (case n of
        None \<Rightarrow> None
      | Some k \<Rightarrow> (case tot of None \<Rightarrow> Some (String k)
                             | Some m \<Rightarrow> Some (String k @ ''/'' @ String m)))"

definition buildEditState :: "TrackRow list \<Rightarrow> EditState" where
  "buildEditState tracks =
     \<lparr>title = computeField tracks TrackRow.title (=),
      artistNames = computeField tracks extractArtistNames
                      (\<lambda>a b. join '','' a = join '','' b),
      albumTitle = computeField tracks TrackRow.albumTitle (=),
      albumArtist = computeField tracks TrackRow.albumArtist (=),
      composer = computeField tracks TrackRow.composer (=),
      year = computeField tracks (\<lambda>t. map_option String (TrackRow.year t)) (=),
      genre = computeField tracks TrackRow.genre (=),
      trackNumber = computeField tracks
                      (\<lambda>t. extractPosition (TrackRow.trackNumber t) (trackTotal t)) (=),
      discNumber = computeField tracks
                     (\<lambda>t. extractPosition (TrackRow.discNumber t) (discTotal t)) (=),
      bpm = computeField tracks (\<lambda>t. map_option String (TrackRow.bpm t)) (=),
      comment = computeField tracks TrackRow.comment (=),
      commentLang = computeField tracks TrackRow.commentLang (=),
      lyrics = computeField tracks TrackRow.lyrics (=),
      lyricsLang = computeField tracks TrackRow.lyricsLang (=)\<rparr>"

definition hasAnyEditIn :: "EditState \<Rightarrow> bool" where
  \<comment> \<open>\<open>Object.values(editState).some((fs) => fs.kind === "edited")\<close>\<close>
  "hasAnyEditIn es =
     (isEdited (title es) \<or> isEdited (artistNames es) \<or> isEdited (albumTitle es)
      \<or> isEdited (albumArtist es) \<or> isEdited (composer es) \<or> isEdited (year es)
      \<or> isEdited (genre es) \<or> isEdited (trackNumber es) \<or> isEdited (discNumber es)
      \<or> isEdited (bpm es) \<or> isEdited (comment es) \<or> isEdited (commentLang es)
      \<or> isEdited (lyrics es) \<or> isEdited (lyricsLang es))"

section \<open>The outbound patch\<close>

text \<open>
  An object built by assignments is the list of its keys with their values, in insertion
  order; \<open>Object.keys\<close> reads the keys off.
\<close>

type_synonym 'v obj = "(string \<times> 'v) list"

fun objSet :: "string \<Rightarrow> 'v \<Rightarrow> 'v obj \<Rightarrow> 'v obj" where
  "objSet k v [] = [(k, v)]"
| "objSet k v (p # ps) = (if fst p = k then (k, v) # ps else p # objSet k v ps)"

definition objDelete :: "string \<Rightarrow> 'v obj \<Rightarrow> 'v obj" where
  "objDelete k ps = filter (\<lambda>p. fst p \<noteq> k) ps"

definition objKeys :: "'v obj \<Rightarrow> string list" where
  "objKeys ps = map fst ps"

definition objGet :: "'v obj \<Rightarrow> string \<Rightarrow> 'v option" where
  "objGet ps k = map_of ps k"

datatype jsval = JNull | JStr string | JNum int | JNaN

type_synonym TrackUpdateInput = "jsval obj"

definition numOrNull :: "int option \<Rightarrow> jsval" where
  "numOrNull n = (case n of None \<Rightarrow> JNull | Some k \<Rightarrow> JNum k)"

definition whenEdited ::
  "'a FieldState \<Rightarrow> ('a \<Rightarrow> TrackUpdateInput \<Rightarrow> TrackUpdateInput)
     \<Rightarrow> TrackUpdateInput \<Rightarrow> TrackUpdateInput" where
  \<comment> \<open>\<open>if (fs.kind === "edited") ...\<close> with \<open>fs.value\<close> at hand\<close>
  "whenEdited fs assign input = (case fs of Edited v \<Rightarrow> assign v input | _ \<Rightarrow> input)"

definition orEmpty :: "string option \<Rightarrow> jsval" where
  \<comment> \<open>\<open>v ?? ""\<close>\<close>
  "orEmpty v = (case v of None \<Rightarrow> JStr [] | Some s \<Rightarrow> JStr s)"

definition parsedOrNull :: "string option \<Rightarrow> jsval" where
  \<comment> \<open>\<open>v ? parseInt(v) : null\<close>\<close>
  "parsedOrNull v =
     (if truthy v then (case parseInt (the v) of None \<Rightarrow> JNaN | Some n \<Rightarrow> JNum n)
      else JNull)"

definition buildInput :: "EditState \<Rightarrow> TrackUpdateInput" where
  \<comment> \<open>the patch that \<open>save\<close> builds: only edited fields are assigned\<close>
  "buildInput es =
     (let input = [];
          input = whenEdited (title es)
                    (\<lambda>v. objSet ''title'' (if v \<noteq> [] then JStr v else JNull)) input;
          input = whenEdited (artistNames es)
                    (\<lambda>v. objSet ''artistName''
                            (if length v > 0 then JStr (join '' / '' v) else JStr [])) input;
          input = whenEdited (albumTitle es) (\<lambda>v. objSet ''albumTitle'' (orEmpty v)) input;
          input = whenEdited (albumArtist es) (\<lambda>v. objSet ''albumArtist'' (orEmpty v)) input;
          input = whenEdited (composer es) (\<lambda>v. objSet ''composer'' (orEmpty v)) input;
          input = whenEdited (genre es) (\<lambda>v. objSet ''genre'' (orEmpty v)) input;
          input = whenEdited (year es) (\<lambda>v. objSet ''year'' (parsedOrNull v)) input;
          input = whenEdited (bpm es) (\<lambda>v. objSet ''bpm'' (parsedOrNull v)) input;
          input = whenEdited (comment es) (\<lambda>v. objSet ''comment'' (orEmpty v)) input;
          input = whenEdited (commentLang es) (\<lambda>v. objSet ''commentLang'' (orEmpty v)) input;
          input = whenEdited (lyrics es) (\<lambda>v. objSet ''lyrics'' (orEmpty v)) input;
          input = whenEdited (lyricsLang es) (\<lambda>v. objSet ''lyricsLang'' (orEmpty v)) input;
          input = whenEdited (trackNumber es)
                    (\<lambda>v. objSet ''trackTotal'' (numOrNull (total (parseTrackDisc v)))
                          \<circ> objSet ''trackNumber'' (numOrNull (num (parseTrackDisc v)))) input;
          input = whenEdited (discNumber es)
                    (\<lambda>v. objSet ''discTotal'' (numOrNull (total (parseTrackDisc v)))
                          \<circ> objSet ''discNumber'' (numOrNull (num (parseTrackDisc v)))) input
      in input)"

datatype Field =
    FTitle | FArtistNames | FAlbumTitle | FAlbumArtist | FComposer | FYear | FGenre
  | FTrackNumber | FDiscNumber | FBpm | FComment | FCommentLang | FLyrics | FLyricsLang

fun fieldEdited :: "EditState \<Rightarrow> Field \<Rightarrow> bool" where
  \<comment> \<open>\<open>editState[field].kind === "edited"\<close>\<close>
  "fieldEdited es FTitle = isEdited (title es)"
| "fieldEdited es FArtistNames = isEdited (artistNames es)"
| "fieldEdited es FAlbumTitle = isEdited (albumTitle es)"
| "fieldEdited es FAlbumArtist = isEdited (albumArtist es)"
| "fieldEdited es FComposer = isEdited (composer es)"
| "fieldEdited es FYear = isEdited (year es)"
| "fieldEdited es FGenre = isEdited (genre es)"
| "fieldEdited es FTrackNumber = isEdited (trackNumber es)"
| "fieldEdited es FDiscNumber = isEdited (discNumber es)"
| "fieldEdited es FBpm = isEdited (bpm es)"
| "fieldEdited es FComment = isEdited (comment es)"
| "fieldEdited es FCommentLang = isEdited (commentLang es)"
| "fieldEdited es FLyrics = isEdited (lyrics es)"
| "fieldEdited es FLyricsLang = isEdited (lyricsLang es)"

fun inputKeys :: "Field \<Rightarrow> string list" where
  \<comment> \<open>the keys of \<open>TrackUpdateInput\<close> that carry a field of the edit state\<close>
  "inputKeys FTitle = [''title'']"
| "inputKeys FArtistNames = [''artistName'']"
| "inputKeys FAlbumTitle = [''albumTitle'']"
| "inputKeys FAlbumArtist = [''albumArtist'']"
| "inputKeys FComposer = [''composer'']"
| "inputKeys FYear = [''year'']"
| "inputKeys FGenre = [''genre'']"
| "inputKeys FTrackNumber = [''trackNumber'', ''trackTotal'']"
| "inputKeys FDiscNumber = [''discNumber'', ''discTotal'']"
| "inputKeys FBpm = [''bpm'']"
| "inputKeys FComment = [''comment'']"
| "inputKeys FCommentLang = [''commentLang'']"
| "inputKeys FLyrics = [''lyrics'']"
| "inputKeys FLyricsLang = [''lyricsLang'']"

section \<open>The editor panel\<close>

record ExtraTag =
  frame_id :: string
  tag_value :: string

text \<open>
  The state of \<open>TrackEditorPanel\<close>: its \<open>trackIds\<close> property and its state hooks.
  The autocomplete suggestions and the visibility of the frame picker do not reach the
  edit session and are left out.
\<close>

record PanelState =
  trackIds :: "int list"
  tracks :: "TrackRow list"
  loading :: bool
  saving :: bool
  saved :: bool
  editState :: "EditState option"
  errors :: "string obj"
  extraTags :: "ExtraTag list"
  extraTagErrors :: "string obj"

definition isSingle :: "PanelState \<Rightarrow> bool" where
  "isSingle st = (length (trackIds st) = 1)"

definition hasAnyEdit :: "PanelState \<Rightarrow> bool" where
  "hasAnyEdit st = (case editState st of None \<Rightarrow> False | Some es \<Rightarrow> hasAnyEditIn es)"

definition hasValidationErrors :: "PanelState \<Rightarrow> bool" where
  "hasValidationErrors st =
     (length (objKeys (errors st)) > 0 \<or> length (objKeys (extraTagErrors st)) > 0)"

definition editorShown :: "PanelState \<Rightarrow> bool" where
  \<comment> \<open>the form is rendered: not loading, and not the not-found message\<close>
  "editorShown st = (\<not> loading st \<and> editState st \<noteq> None \<and> tracks st \<noteq> [])"

subsection \<open>Validation\<close>

definition checkEdited ::
  "string option FieldState \<Rightarrow> Validator \<Rightarrow> string \<Rightarrow> string obj \<Rightarrow> string obj" where
  \<comment> \<open>one block of \<open>validate\<close>: an edited, non-empty value is run through its validator\<close>
  "checkEdited fs validator key errs =
     (case fs of
        Edited v \<Rightarrow>
          if truthy v then
            (case validator (the v) of
               None \<Rightarrow> errs
             | Some e \<Rightarrow> if e \<noteq> [] then objSet key e errs else errs)
          else errs
      | _ \<Rightarrow> errs)"

fun checkExtraTags :: "ExtraTag list \<Rightarrow> string obj \<Rightarrow> string obj" where
  "checkExtraTags [] eteErrs = eteErrs"
| "checkExtraTags (tag # tags) eteErrs =
     checkExtraTags tags
       (case FIELD_VALIDATORS (frame_id tag) of
          None \<Rightarrow> eteErrs
        | Some validator \<Rightarrow>
            if tag_value tag \<noteq> [] then
              (case validator (tag_value tag) of
                 None \<Rightarrow> eteErrs
               | Some e \<Rightarrow> if e \<noteq> [] then objSet (frame_id tag) e eteErrs else eteErrs)
            else eteErrs)"

definition validate :: "PanelState \<Rightarrow> bool \<times> PanelState" where
  \<comment> \<open>the verdict, and the state with both error maps replaced\<close>
  "validate st =
     (let errs = [];
          errs = (case editState st of None \<Rightarrow> errs
                  | Some es \<Rightarrow> checkEdited (bpm es) bpm_validator ''bpm'' errs);
          errs = (case editState st of None \<Rightarrow> errs
                  | Some es \<Rightarrow> checkEdited (year es) year_validator ''year'' errs);
          errs = (case editState st of None \<Rightarrow> errs
                  | Some es \<Rightarrow>
                      checkEdited (trackNumber es) trackNumber_validator ''trackNumber'' errs);
          errs = (case editState st of None \<Rightarrow> errs
                  | Some es \<Rightarrow>
                      checkEdited (discNumber es) discNumber_validator ''discNumber'' errs);
          eteErrs = checkExtraTags (extraTags st) []
      in (length (objKeys errs) = 0 \<and> length (objKeys eteErrs) = 0,
          st\<lparr>errors := errs, extraTagErrors := eteErrs\<rparr>))"

subsection \<open>Input handlers\<close>

definition orNullStr :: "string \<Rightarrow> string option" where
  \<comment> \<open>\<open>v || null\<close> for a string\<close>
  "orNullStr v = (if v \<noteq> [] then Some v else None)"

definition liveError :: "Validator \<Rightarrow> string \<Rightarrow> string \<Rightarrow> string obj \<Rightarrow> string obj" where
  \<comment> \<open>the error update of a validated input: set the message, or delete the key\<close>
  "liveError validator key v prev =
     (case (if v \<noteq> [] then validator v else None) of
        Some err \<Rightarrow> if err \<noteq> [] then objSet key err prev else objDelete key prev
      | None \<Rightarrow> objDelete key prev)"

datatype UiEvent =
    ChangeTitle string
  | ChangeArtistNames "string list"
  | ChangeAlbumTitle string
  | ChangeAlbumArtist string
  | ChangeComposer string
  | ChangeYear string
  | ChangeGenre string
  | ChangeTrackNumber string
  | ChangeDiscNumber string
  | ChangeLyrics string
  | ChangeLyricsLang "string option"
  | ChangeComment string
  | ChangeCommentLang "string option"
  | ChangeBpm string
  | ChangeExtraTag string string
  | RemoveExtraTag string
  | AddExtraTag string

definition ADDABLE_FRAMES :: "string list" where
  "ADDABLE_FRAMES =
     [''TKEY'', ''TCOP'', ''TPUB'', ''TIT3'', ''TIT1'', ''TEXT'', ''TENC'', ''TMED'', ''TSRC'',
      ''TOPE'']"

definition setField :: "(EditState \<Rightarrow> EditState) \<Rightarrow> PanelState \<Rightarrow> PanelState" where
  \<comment> \<open>\<open>setField(field, value)\<close>; the argument writes \<open>{kind: "edited", value}\<close> at the field\<close>
  "setField upd st =
     (case editState st of None \<Rightarrow> st | Some prev \<Rightarrow> st\<lparr>editState := Some (upd prev)\<rparr>)"

fun handle :: "UiEvent \<Rightarrow> PanelState \<Rightarrow> PanelState" where
  "handle (ChangeTitle v) st = setField (\<lambda>es. es\<lparr>title := Edited v\<rparr>) st"
| "handle (ChangeArtistNames names) st =
     (case map_option artistNames (editState st) of
        Some (Divergent _) \<Rightarrow> st
      | _ \<Rightarrow> setField (\<lambda>es. es\<lparr>artistNames := Edited names\<rparr>) st)"
| "handle (ChangeAlbumTitle v) st =
     (case map_option albumTitle (editState st) of
        Some (Divergent _) \<Rightarrow> st
      | _ \<Rightarrow> setField (\<lambda>es. es\<lparr>albumTitle := Edited (orNullStr v)\<rparr>) st)"
| "handle (ChangeAlbumArtist v) st =
     setField (\<lambda>es. es\<lparr>albumArtist := Edited (orNullStr v)\<rparr>) st"
| "handle (ChangeComposer v) st = setField (\<lambda>es. es\<lparr>composer := Edited (orNullStr v)\<rparr>) st"
| "handle (ChangeYear v) st =
     (setField (\<lambda>es. es\<lparr>year := Edited (orNullStr v)\<rparr>) st)
       \<lparr>errors := liveError year_validator ''year'' v (errors st)\<rparr>"
| "handle (ChangeGenre v) st = setField (\<lambda>es. es\<lparr>genre := Edited (orNullStr v)\<rparr>) st"
| "handle (ChangeTrackNumber v) st =
     (setField (\<lambda>es. es\<lparr>trackNumber := Edited (orNullStr v)\<rparr>) st)
       \<lparr>errors := liveError trackNumber_validator ''trackNumber'' v (errors st)\<rparr>"
| "handle (ChangeDiscNumber v) st =
     (setField (\<lambda>es. es\<lparr>discNumber := Edited (orNullStr v)\<rparr>) st)
       \<lparr>errors := liveError discNumber_validator ''discNumber'' v (errors st)\<rparr>"
| "handle (ChangeLyrics v) st = setField (\<lambda>es. es\<lparr>lyrics := Edited (orNullStr v)\<rparr>) st"
| "handle (ChangeLyricsLang v) st = setField (\<lambda>es. es\<lparr>lyricsLang := Edited v\<rparr>) st"
| "handle (ChangeComment v) st = setField (\<lambda>es. es\<lparr>comment := Edited (orNullStr v)\<rparr>) st"
| "handle (ChangeCommentLang v) st = setField (\<lambda>es. es\<lparr>commentLang := Edited v\<rparr>) st"
| "handle (ChangeBpm v) st =
     (setField (\<lambda>es. es\<lparr>bpm := Edited (orNullStr v)\<rparr>) st)
       \<lparr>errors := liveError bpm_validator ''bpm'' v (errors st)\<rparr>"
| "handle (ChangeExtraTag fid val) st =
     (if isSingle st \<and> fid \<in> set (map frame_id (extraTags st)) then
        st\<lparr>extraTags := map (\<lambda>t. if frame_id t = fid then t\<lparr>tag_value := val\<rparr> else t)
                            (extraTags st),
           extraTagErrors :=
             (case FIELD_VALIDATORS fid of
                Some validator \<Rightarrow>
                  if val \<noteq> [] then
                    objSet fid (case validator val of None \<Rightarrow> [] | Some verr \<Rightarrow> verr)
                      (extraTagErrors st)
                  else objDelete fid (extraTagErrors st)
              | None \<Rightarrow> objDelete fid (extraTagErrors st))\<rparr>
      else st)"
| "handle (RemoveExtraTag fid) st =
     (if isSingle st \<and> fid \<in> set (map frame_id (extraTags st)) then
        st\<lparr>extraTags := filter (\<lambda>t. frame_id t \<noteq> fid) (extraTags st),
           extraTagErrors := objDelete fid (extraTagErrors st)\<rparr>
      else st)"
| "handle (AddExtraTag fid) st =
     (if isSingle st \<and> fid \<in> set ADDABLE_FRAMES
         \<and> fid \<notin> set (map frame_id (extraTags st)) then
        st\<lparr>extraTags := extraTags st @ [\<lparr>frame_id = fid, tag_value = []\<rparr>]\<rparr>
      else st)"

definition uiEvent :: "UiEvent \<Rightarrow> PanelState \<Rightarrow> PanelState" where
  \<comment> \<open>an input event reaches its handler only while the form is rendered\<close>
  "uiEvent ev st = (if editorShown st then handle ev st else st)"

fun uiEvents :: "UiEvent list \<Rightarrow> PanelState \<Rightarrow> PanelState" where
  "uiEvents [] st = st"
| "uiEvents (ev # evs) st = uiEvents evs (uiEvent ev st)"

subsection \<open>Discard\<close>

definition discard :: "PanelState \<Rightarrow> PanelState" where
  "discard st =
     (if editState st = None \<or> length (tracks st) = 0 then st
      else st\<lparr>editState := Some (buildEditState (tracks st)), errors := [],
              extraTagErrors := []\<rparr>)"

definition clickDiscard :: "PanelState \<Rightarrow> PanelState" where
  \<comment> \<open>the Discard button is \<open>disabled={!hasAnyEdit}\<close>\<close>
  "clickDiscard st = (if editorShown st \<and> hasAnyEdit st then discard st else st)"

subsection \<open>Backend commands and asynchronous continuations\<close>

text \<open>
  A command of the bindings returns a promise. The promise either rejects or fulfils with
  a result object, \<open>{status: "error"}\<close> or \<open>{status: "ok", data}\<close>. An \<open>async\<close>
  function of the panel runs up to its next \<open>await\<close>, hands the commands it has
  dispatched to the backend and is resumed, later, with what they settled to; between
  the two, other events run. The continuation records where the function is suspended,
  with the variables of its closure that it reads afterwards.
\<close>

datatype 'a Result = StatusError | StatusOk 'a

datatype Command =
    GetTrack int
  | ListArtists
  | ListAlbums
  | GetTrackExtraTags int
  | UpdateTrack int TrackUpdateInput
  | SetTrackExtraTags int "ExtraTag list"
  | BatchUpdateTracks "int list" TrackUpdateInput

datatype Awaiting =
    LoadTracks "int list"
  | LoadExtraTags
  | SaveUpdateTrack int "ExtraTag list"
  | SaveSetExtraTags
  | SaveBatchUpdate "int list"
  | SaveReload
  | SaveSuggestions

datatype Settled =
    Rejects
  | TrackResults "TrackRow Result list"
  | ExtraTagsResult "ExtraTag list Result"
  | UpdateResult "TrackRow Result"
  | SetExtraTagsResult "unit Result"
  | BatchResult "unit Result"
  | SuggestionsResults

fun okData :: "'a Result list \<Rightarrow> 'a list" where
  \<comment> \<open>\<open>results.filter((r) => r.status === "ok").map((r) => r.data)\<close>\<close>
  "okData [] = []"
| "okData (StatusOk d # rs) = d # okData rs"
| "okData (StatusError # rs) = okData rs"

definition loadEffect ::
  "int list \<Rightarrow> PanelState \<Rightarrow> PanelState \<times> Command list \<times> Awaiting" where
  \<comment> \<open>the effect that runs when the selection changes, up to the first \<open>await\<close> of \<open>load\<close>\<close>
  "loadEffect ids st =
     (st\<lparr>trackIds := ids, loading := True, editState := None, extraTags := []\<rparr>,
      map GetTrack ids @ [ListArtists, ListAlbums],
      LoadTracks ids)"

definition afterDispatch :: "PanelState \<Rightarrow> PanelState \<times> (Command list \<times> Awaiting) option" where
  \<comment> \<open>the statements of \<open>save\<close> that follow the single and the batch branch\<close>
  "afterDispatch st = (st\<lparr>saved := True\<rparr>, Some ([ListArtists, ListAlbums], SaveSuggestions))"

fun resume ::
  "Awaiting \<Rightarrow> Settled \<Rightarrow> PanelState \<Rightarrow> PanelState \<times> (Command list \<times> Awaiting) option" where
  "resume (LoadTracks ids) (TrackResults trackResults) st =
     (let loadedTracks = okData trackResults;
          st = st\<lparr>tracks := loadedTracks, editState := Some (buildEditState loadedTracks)\<rparr>
      in case ids of
           [i] \<Rightarrow> (st, Some ([GetTrackExtraTags i], LoadExtraTags))
         | _ \<Rightarrow> (st\<lparr>loading := False\<rparr>, None))"
| "resume (LoadTracks ids) Rejects st = (st\<lparr>loading := False\<rparr>, None)"
| "resume LoadExtraTags (ExtraTagsResult (StatusOk tags)) st =
     (st\<lparr>extraTags := tags, loading := False\<rparr>, None)"
| "resume LoadExtraTags (ExtraTagsResult StatusError) st = (st\<lparr>loading := False\<rparr>, None)"
| "resume LoadExtraTags Rejects st = (st\<lparr>loading := False\<rparr>, None)"
| "resume (SaveUpdateTrack i tags) (UpdateResult (StatusOk updated)) st =
     (st\<lparr>tracks := [updated], editState := Some (buildEditState [updated])\<rparr>,
      Some ([SetTrackExtraTags i tags], SaveSetExtraTags))"
| "resume (SaveUpdateTrack i tags) (UpdateResult StatusError) st = afterDispatch st"
| "resume (SaveUpdateTrack i tags) Rejects st = (st\<lparr>saving := False\<rparr>, None)"
| "resume SaveSetExtraTags (SetExtraTagsResult r) st = afterDispatch st"
| "resume SaveSetExtraTags Rejects st = (st\<lparr>saving := False\<rparr>, None)"
| "resume (SaveBatchUpdate ids) (BatchResult r) st = (st, Some (map GetTrack ids, SaveReload))"
| "resume (SaveBatchUpdate ids) Rejects st = (st\<lparr>saving := False\<rparr>, None)"
| "resume SaveReload (TrackResults results) st =
     (let reloaded = okData results
      in afterDispatch (st\<lparr>tracks := reloaded, editState := Some (buildEditState reloaded)\<rparr>))"
| "resume SaveReload Rejects st = (st\<lparr>saving := False\<rparr>, None)"
| "resume SaveSuggestions SuggestionsResults st = (st\<lparr>saving := False\<rparr>, None)"
| "resume SaveSuggestions Rejects st = (st\<lparr>saving := False\<rparr>, None)"
| "resume a r st = (st, Some ([], a))"

definition savedTimeout :: "PanelState \<Rightarrow> PanelState" where
  \<comment> \<open>\<open>setTimeout(() => setSaved(false), 1500)\<close> firing\<close>
  "savedTimeout st = st\<lparr>saved := False\<rparr>"

subsection \<open>Save\<close>

definition save :: "PanelState \<Rightarrow> PanelState \<times> (Command list \<times> Awaiting) option" where
  \<comment> \<open>\<open>save\<close> up to its first \<open>await\<close>; its remainder is in \<open>resume\<close>\<close>
  "save st =
     (case editState st of
        None \<Rightarrow> (st, None)
      | Some es \<Rightarrow>
          (case validate st of
             (False, st) \<Rightarrow> (st, None)
           | (True, st) \<Rightarrow>
               let st = st\<lparr>saving := True\<rparr>;
                   input = buildInput es
               in case trackIds st of
                    [i] \<Rightarrow> (st, Some ([UpdateTrack i input], SaveUpdateTrack i (extraTags st)))
                  | ids \<Rightarrow> (st, Some ([BatchUpdateTracks ids input], SaveBatchUpdate ids))))"

definition saveDisabled :: "PanelState \<Rightarrow> bool" where
  \<comment> \<open>\<open>disabled={!hasAnyEdit || saving || saved || hasValidationErrors}\<close>\<close>
  "saveDisabled st = (\<not> hasAnyEdit st \<or> saving st \<or> saved st \<or> hasValidationErrors st)"

definition clickSave :: "PanelState \<Rightarrow> PanelState \<times> (Command list \<times> Awaiting) option" where
  \<comment> \<open>a click on Save: the only caller of \<open>save\<close>; a disabled button fires no handler\<close>
  "clickSave st = (if editorShown st \<and> \<not> saveDisabled st then save st else (st, None))"

definition dispatched :: "PanelState \<times> (Command list \<times> Awaiting) option \<Rightarrow> Command list" where
  "dispatched r = (case snd r of None \<Rightarrow> [] | Some (cmds, a) \<Rightarrow> cmds)"


subsection \<open>Mounting and loading\<close>

definition initialPanel :: "int list \<Rightarrow> PanelState" where
  \<comment> \<open>the panel as mounted: the initial values of its state hooks\<close>
  "initialPanel ids =
     \<lparr>trackIds = ids, tracks = [], loading = True, saving = False, saved = False,
      editState = None, errors = [], extraTags = [], extraTagErrors = []\<rparr>"

definition loadedPanel :: "TrackRow list \<Rightarrow> PanelState" where
  \<comment> \<open>the panel once the load of the given records (and of no extra tags) has completed\<close>
  "loadedPanel ts =
     \<lparr>trackIds = map TrackRow.id ts, tracks = ts, loading = False, saving = False,
      saved = False, editState = Some (buildEditState ts), errors = [], extraTags = [],
      extraTagErrors = []\<rparr>"

section \<open>The cover-art lookup cache\<close>

text \<open>
  \<open>useCoverArt\<close> and \<open>useAlbumCoverArt\<close> each keep two module-level maps, the resolved
  values and the promises in flight, and run the same effect on them: the first under the
  key \<open>albumId ?? -trackId\<close> with the command \<open>getCoverArt(trackId)\<close>, the second
  under the key \<open>albumId\<close> with \<open>getAlbumCoverArt(albumId)\<close>. The state below is one
  such pair of maps together with the promises the effect created, the \<open>then\<close>
  callbacks attached to them, the log of the commands issued and the log of the
  \<open>setSrc\<close> calls made.
\<close>

datatype PromiseState = InFlight | Fulfilled "string option" | Rejected

record Listener =
  caller :: nat
  promise :: nat
  key :: int
  cancelled :: bool
  ran :: bool

record CacheState =
  cache :: "int \<rightharpoonup> string option"
  pending :: "int \<rightharpoonup> nat"
  promises :: "(int \<times> PromiseState) list"
  listeners :: "Listener list"
  fetches :: "(int \<times> int) list"
  received :: "(nat \<times> string option) list"

datatype CoverResponse =
    CoverRejects
  | CoverResult "(string \<times> string) option Result"

definition initCache :: CacheState where
  "initCache = \<lparr>cache = Map.empty, pending = Map.empty, promises = [], listeners = [],
                 fetches = [], received = []\<rparr>"

definition coverKey :: "int \<Rightarrow> int option \<Rightarrow> int" where
  \<comment> \<open>\<open>albumId ?? -trackId\<close>\<close>
  "coverKey trackId albumId = (case albumId of None \<Rightarrow> - trackId | Some a \<Rightarrow> a)"

definition coverUrl :: "(string \<times> string) option Result \<Rightarrow> string option" where
  \<comment> \<open>the data URL of a result, \<open>null\<close> for an error result or for no cover\<close>
  "coverUrl res =
     (case res of
        StatusOk (Some (mimeType, content)) \<Rightarrow> Some (''data:'' @ mimeType @ '';base64,'' @ content)
      | _ \<Rightarrow> None)"

definition effect :: "nat \<Rightarrow> int \<Rightarrow> int \<Rightarrow> CacheState \<Rightarrow> CacheState" where
  \<comment> \<open>the effect of the hook in component \<open>c\<close>, for key \<open>k\<close> and command argument \<open>arg\<close>\<close>
  "effect c k arg s =
     (case cache s k of
        Some v \<Rightarrow> s\<lparr>received := received s @ [(c, v)]\<rparr>
      | None \<Rightarrow>
          (case pending s k of
             Some p \<Rightarrow>
               s\<lparr>listeners := listeners s
                    @ [\<lparr>caller = c, promise = p, key = k, cancelled = False, ran = False\<rparr>]\<rparr>
           | None \<Rightarrow>
               (let p = length (promises s) in
                s\<lparr>fetches := fetches s @ [(k, arg)],
                  promises := promises s @ [(k, InFlight)],
                  pending := (pending s)(k \<mapsto> p),
                  listeners := listeners s
                    @ [\<lparr>caller = c, promise = p, key = k, cancelled = False, ran = False\<rparr>]\<rparr>)))"

definition useCoverArtEffect :: "nat \<Rightarrow> int \<Rightarrow> int option \<Rightarrow> CacheState \<Rightarrow> CacheState" where
  "useCoverArtEffect c trackId albumId s = effect c (coverKey trackId albumId) trackId s"

definition useAlbumCoverArtEffect :: "nat \<Rightarrow> int \<Rightarrow> CacheState \<Rightarrow> CacheState" where
  "useAlbumCoverArtEffect c albumId s = effect c albumId albumId s"

definition cleanup :: "nat \<Rightarrow> CacheState \<Rightarrow> CacheState" where
  \<comment> \<open>the cleanup of the effect that attached callback \<open>i\<close>: \<open>cancelled = true\<close>\<close>
  "cleanup i s =
     (if i < length (listeners s)
      then s\<lparr>listeners := (listeners s)[i := (listeners s ! i)\<lparr>cancelled := True\<rparr>]\<rparr>
      else s)"

definition settle :: "nat \<Rightarrow> CoverResponse \<Rightarrow> CacheState \<Rightarrow> CacheState" where
  \<comment> \<open>the command behind promise \<open>p\<close> settles: its first \<open>then\<close> fills the cache\<close>
  "settle p response s =
     (if p < length (promises s) \<and> snd (promises s ! p) = InFlight then
        (case response of
           CoverRejects \<Rightarrow> s\<lparr>promises := (promises s)[p := (fst (promises s ! p), Rejected)]\<rparr>
         | CoverResult res \<Rightarrow>
             s\<lparr>cache := (cache s)(fst (promises s ! p) \<mapsto> coverUrl res),
               promises := (promises s)[p := (fst (promises s ! p), Fulfilled (coverUrl res))]\<rparr>)
      else s)"

definition react :: "nat \<Rightarrow> CacheState \<Rightarrow> CacheState" where
  \<comment> \<open>callback \<open>i\<close> runs, once, after its promise has fulfilled\<close>
  "react i s =
     (if i < length (listeners s) \<and> \<not> ran (listeners s ! i)
         \<and> promise (listeners s ! i) < length (promises s) then
        (case snd (promises s ! promise (listeners s ! i)) of
           Fulfilled url \<Rightarrow>
             s\<lparr>pending := (pending s)(key (listeners s ! i) := None),
               received := (if cancelled (listeners s ! i) then received s
                            else received s @ [(caller (listeners s ! i), url)]),
               listeners := (listeners s)[i := (listeners s ! i)\<lparr>ran := True\<rparr>]\<rparr>
         | _ \<Rightarrow> s)
      else s)"

datatype CacheEvent =
    Effect nat int int
  | Cleanup nat
  | Settle nat CoverResponse
  | React nat

fun cacheStep :: "CacheEvent \<Rightarrow> CacheState \<Rightarrow> CacheState" where
  "cacheStep (Effect c k arg) s = effect c k arg s"
| "cacheStep (Cleanup i) s = cleanup i s"
| "cacheStep (Settle p response) s = settle p response s"
| "cacheStep (React i) s = react i s"

fun cacheRun :: "CacheEvent list \<Rightarrow> CacheState \<Rightarrow> CacheState" where
  "cacheRun [] s = s"
| "cacheRun (ev # evs) s = cacheRun evs (cacheStep ev s)"

definition fetchCount :: "int \<Rightarrow> CacheState \<Rightarrow> nat" where
  "fetchCount k s = length (filter (\<lambda>f. fst f = k) (fetches s))"

subsection \<open>What holds of the maps at all times\<close>

text \<open>
  The facts that every run of the hooks preserves: a key is fetched once; a fetched key is
  resolved or in flight; a fulfilled promise has filled the cache; a promise in flight and
  a callback are filed under the key of their promise.
\<close>

definition fetched_known :: "CacheState \<Rightarrow> bool" where
  "fetched_known s \<longleftrightarrow>
     (\<forall>k. k \<in> fst ` set (fetches s) \<longrightarrow> cache s k \<noteq> None \<or> pending s k \<noteq> None)"

definition fulfilled_cached :: "CacheState \<Rightarrow> bool" where
  "fulfilled_cached s \<longleftrightarrow>
     (\<forall>p<length (promises s). \<forall>v. snd (promises s ! p) = Fulfilled v
        \<longrightarrow> cache s (fst (promises s ! p)) \<noteq> None)"

definition pending_keyed :: "CacheState \<Rightarrow> bool" where
  "pending_keyed s \<longleftrightarrow>
     (\<forall>k p. pending s k = Some p \<longrightarrow> p < length (promises s) \<and> fst (promises s ! p) = k)"

definition listeners_keyed :: "CacheState \<Rightarrow> bool" where
  "listeners_keyed s \<longleftrightarrow>
     (\<forall>i<length (listeners s). promise (listeners s ! i) < length (promises s)
        \<and> key (listeners s ! i) = fst (promises s ! promise (listeners s ! i)))"

definition cache_inv :: "CacheState \<Rightarrow> bool" where
  "cache_inv s \<longleftrightarrow>
     distinct (map fst (fetches s)) \<and> fetched_known s \<and> fulfilled_cached s
     \<and> pending_keyed s \<and> listeners_keyed s"

section \<open>Records of the test suite\<close>

text \<open>The fixtures of the editor's tests, used where concrete records are needed.\<close>

definition baseTrack :: TrackRow where
  "baseTrack =
     \<lparr>id = 1, TrackRow.title = ''My Song'', artistName = Some ''Test Artist'',
      TrackRow.albumTitle = Some ''Test Album'', TrackRow.albumArtist = None,
      TrackRow.composer = None, TrackRow.year = None, TrackRow.genre = None,
      TrackRow.trackNumber = Some 5, trackTotal = None, TrackRow.discNumber = Some 1,
      discTotal = None, TrackRow.bpm = None, TrackRow.comment = None,
      TrackRow.commentLang = None, TrackRow.lyrics = Some ''Some lyrics here'',
      TrackRow.lyricsLang = None\<rparr>"

definition trackB :: TrackRow where
  \<comment> \<open>the second record of the multi-selection tests\<close>
  "trackB = baseTrack\<lparr>TrackRow.id := 2, TrackRow.title := ''Title B''\<rparr>"

section \<open>Properties of the reconciler\<close>

lemma nthOrUndefined_map_0:
  "xs \<noteq> [] \<Longrightarrow> nthOrUndefined (map f xs) 0 = Some (f (xs ! 0))"
  by (cases xs) (simp_all add: nthOrUndefined_def)

lemma list_all_nth_conv:
  "list_all P (map f xs) = (\<forall>i<length xs. P (f (xs ! i)))"
  by (simp add: list_all_length)

text \<open>
  Claim C3. For every non-empty list of records, projection \<open>extract\<close> and equality
  \<open>equals\<close>, \<open>computeField\<close> returns uniform with the projection of the first record
  when \<open>equals (extract r\<^sub>i) (extract r\<^sub>0)\<close> holds for every record, and otherwise
  divergent with exactly one entry per record, in input order.
\<close>

theorem computeField_spec:
  assumes "records \<noteq> []"
  shows "((\<forall>i<length records. equals (extract (records ! i)) (extract (records ! 0)))
            \<longrightarrow> computeField records extract equals = Uniform (extract (records ! 0)))
       \<and> (\<not> (\<forall>i<length records. equals (extract (records ! i)) (extract (records ! 0)))
            \<longrightarrow> computeField records extract equals = Divergent (map extract records)
              \<and> length (map extract records) = length records
              \<and> (\<forall>i<length records. map extract records ! i = extract (records ! i)))"
  using assms
  by (simp add: computeField_def nthOrUndefined_map_0 list_all_nth_conv)

text \<open>The theorem at a divergent and at a uniform list of records.\<close>

theorem computeField_spec_witness:
  "[1, 2, 3 :: nat] \<noteq> []
   \<and> computeField [1, 2, 3 :: nat] (\<lambda>x. x mod 2) (=) = Divergent [1, 0, 1]
   \<and> computeField [1, 3 :: nat] (\<lambda>x. x mod 2) (=) = Uniform 1"
proof -
  let ?xs = "[1, 2, 3 :: nat]" and ?ys = "[1, 3 :: nat]"
  have ne: "?xs \<noteq> []" "?ys \<noteq> []" by simp_all
  have d: "\<not> (\<forall>i<length ?xs. (?xs ! i) mod 2 = (?xs ! 0) mod 2)"
  proof
    assume a: "\<forall>i<length ?xs. (?xs ! i) mod 2 = (?xs ! 0) mod 2"
    have "(1::nat) < length ?xs" by simp
    with a have "(?xs ! 1) mod 2 = (?xs ! 0) mod 2" by blast
    then show False by simp
  qed
  have u: "\<forall>i<length ?ys. (?ys ! i) mod 2 = (?ys ! 0) mod 2"
    by (simp add: less_Suc_eq nth_Cons')
  from computeField_spec [OF ne(1), of "(=)" "\<lambda>x. x mod 2"] d
  have "computeField ?xs (\<lambda>x. x mod 2) (=) = Divergent (map (\<lambda>x. x mod 2) ?xs)"
    by blast
  moreover from computeField_spec [OF ne(2), of "(=)" "\<lambda>x. x mod 2"] u
  have "computeField ?ys (\<lambda>x. x mod 2) (=) = Uniform ((?ys ! 0) mod 2)"
    by blast
  ultimately show ?thesis by simp
qed

section \<open>Properties of the position parser\<close>

lemma splitFrom_slash:
  "splitFrom ''/'' acc s \<noteq> []
   \<and> hd (splitFrom ''/'' acc s) = rev acc @ takeWhile (\<lambda>c. c \<noteq> CHR ''/'') s
   \<and> (CHR ''/'' \<notin> set s \<longrightarrow> length (splitFrom ''/'' acc s) = 1)"
  by (induction s arbitrary: acc) auto

lemma split_slash_first:
  "nthOrUndefined (split ''/'' v) 0 = Some (takeWhile (\<lambda>c. c \<noteq> CHR ''/'') v)"
  using splitFrom_slash [of "[]" v]
  by (cases "splitFrom ''/'' [] v") (simp_all add: split_def nthOrUndefined_def)

lemma split_slash_second:
  "CHR ''/'' \<notin> set v \<Longrightarrow> nthOrUndefined (split ''/'' v) (Suc 0) = None"
  using splitFrom_slash [of "[]" v]
  by (simp add: split_def nthOrUndefined_def)

lemma orNull_nonzero: "orNull x \<noteq> Some 0"
  by (simp add: orNull_def split: option.splits)

lemma parseTrackDisc_nonzero:
  "num (parseTrackDisc val) \<noteq> Some 0 \<and> total (parseTrackDisc val) \<noteq> Some 0"
  by (simp add: parseTrackDisc_def Let_def orNull_nonzero split: option.splits)

lemma splitFrom_slash_unfold:
  "splitFrom ''/'' acc s =
     (rev acc @ takeWhile (\<lambda>c. c \<noteq> CHR ''/'') s)
       # (if CHR ''/'' \<in> set s
          then splitFrom ''/'' [] (drop 1 (dropWhile (\<lambda>c. c \<noteq> CHR ''/'') s))
          else [])"
  by (induction s arbitrary: acc) auto

lemma split_slash_second_text:
  "nthOrUndefined (split ''/'' v) (Suc 0) = denominatorText v"
proof (cases "CHR ''/'' \<in> set v")
  case False
  then show ?thesis by (simp add: split_slash_second denominatorText_def)
next
  case True
  let ?rest = "drop 1 (dropWhile (\<lambda>c. c \<noteq> CHR ''/'') v)"
  have "split ''/'' v = takeWhile (\<lambda>c. c \<noteq> CHR ''/'') v # splitFrom ''/'' [] ?rest"
    using True splitFrom_slash_unfold [of "[]" v] by (simp add: split_def)
  moreover have "splitFrom ''/'' [] ?rest \<noteq> []"
    and "hd (splitFrom ''/'' [] ?rest) = takeWhile (\<lambda>c. c \<noteq> CHR ''/'') ?rest"
    using splitFrom_slash [of "[]" ?rest] by simp_all
  ultimately show ?thesis
    using True
    by (cases "splitFrom ''/'' [] ?rest") (simp_all add: nthOrUndefined_def denominatorText_def)
qed

lemma parseTrackDisc_num:
  "v \<noteq> [] \<Longrightarrow> num (parseTrackDisc (Some v)) = orNull (parseInt (numeratorText v))"
  by (simp add: parseTrackDisc_def Let_def split_slash_first numeratorText_def)

lemma parseTrackDisc_total:
  "v \<noteq> [] \<Longrightarrow> total (parseTrackDisc (Some v)) =
     (case denominatorText v of
        None \<Rightarrow> None
      | Some d \<Rightarrow> if d = [] then None else orNull (parseInt d))"
  using split_slash_second_text [of v] by (simp add: parseTrackDisc_def Let_def)

text \<open>
  Claim C4, as amended. The parser maps \<open>5/12\<close> to number 5 and total 12, and \<open>5\<close> to
  number 5 and no total. For every non-empty input the number is \<open>parseInt\<close> of the text
  before the first slash, and the total is \<open>parseInt\<close> of the text between the first
  slash and the second, each null when its text is unparsable or parses to zero, the
  total also when there is no slash or nothing after it. Neither depends on the other:
  an unparsable numerator gives no number and leaves the total as the denominator
  parses, so \<open>x/12\<close> has no number and total 12. A null or empty input gives neither.
\<close>

theorem parseTrackDisc_spec:
  "parseTrackDisc (Some ''5/12'') = \<lparr>num = Some 5, total = Some 12\<rparr>
   \<and> parseTrackDisc (Some ''5'') = \<lparr>num = Some 5, total = None\<rparr>
   \<and> (\<forall>v. v \<noteq> [] \<longrightarrow>
          num (parseTrackDisc (Some v)) = orNull (parseInt (numeratorText v))
          \<and> total (parseTrackDisc (Some v)) =
              (case denominatorText v of
                 None \<Rightarrow> None
               | Some d \<Rightarrow> if d = [] then None else orNull (parseInt d)))
   \<and> (\<forall>v. parseInt (takeWhile (\<lambda>c. c \<noteq> CHR ''/'') v) = None
          \<longrightarrow> num (parseTrackDisc (Some v)) = None)
   \<and> (\<forall>v. CHR ''/'' \<notin> set v \<longrightarrow> total (parseTrackDisc (Some v)) = None)
   \<and> parseTrackDisc (Some ''x/12'') = \<lparr>num = None, total = Some 12\<rparr>
   \<and> parseTrackDisc None = \<lparr>num = None, total = None\<rparr>
   \<and> parseTrackDisc (Some '''') = \<lparr>num = None, total = None\<rparr>"
proof -
  have a: "parseTrackDisc (Some ''5/12'') = \<lparr>num = Some 5, total = Some 12\<rparr>" by code_simp
  have b: "parseTrackDisc (Some ''5'') = \<lparr>num = Some 5, total = None\<rparr>" by code_simp
  have c: "num (parseTrackDisc (Some v)) = None"
    if "parseInt (takeWhile (\<lambda>c. c \<noteq> CHR ''/'') v) = None" for v
    using that by (simp add: parseTrackDisc_def Let_def split_slash_first orNull_def)
  have d: "total (parseTrackDisc (Some v)) = None" if "CHR ''/'' \<notin> set v" for v
    using that by (simp add: parseTrackDisc_def Let_def split_slash_second)
  have e: "parseTrackDisc (Some ''x/12'') = \<lparr>num = None, total = Some 12\<rparr>" by code_simp
  have f: "parseTrackDisc None = \<lparr>num = None, total = None\<rparr>"
    "parseTrackDisc (Some '''') = \<lparr>num = None, total = None\<rparr>"
    by (simp_all add: parseTrackDisc_def)
  have g: "\<forall>v. v \<noteq> [] \<longrightarrow>
          num (parseTrackDisc (Some v)) = orNull (parseInt (numeratorText v))
          \<and> total (parseTrackDisc (Some v)) =
              (case denominatorText v of
                 None \<Rightarrow> None
               | Some d \<Rightarrow> if d = [] then None else orNull (parseInt d))"
    using parseTrackDisc_num parseTrackDisc_total by blast
  from a b c d e f g show ?thesis by blast
qed

text \<open>
  The amended statement at \<open>abc/7\<close> (unparsable numerator), at \<open>9\<close> (no slash) and at
  \<open>12/5\<close> (both parsed, the number above the total).
\<close>

theorem parseTrackDisc_spec_witness:
  "parseInt (takeWhile (\<lambda>c. c \<noteq> CHR ''/'') ''abc/7'') = None
   \<and> num (parseTrackDisc (Some ''abc/7'')) = None
   \<and> CHR ''/'' \<notin> set ''9''
   \<and> total (parseTrackDisc (Some ''9'')) = None
   \<and> ''12/5'' \<noteq> []
   \<and> numeratorText ''12/5'' = ''12'' \<and> denominatorText ''12/5'' = Some ''5''
   \<and> num (parseTrackDisc (Some ''12/5'')) = Some 12
   \<and> total (parseTrackDisc (Some ''12/5'')) = Some 5"
proof -
  have a: "parseInt (takeWhile (\<lambda>c. c \<noteq> CHR ''/'') ''abc/7'') = None" by code_simp
  have b: "CHR ''/'' \<notin> set ''9''" by simp
  have c: "''12/5'' \<noteq> []" by simp
  have t: "numeratorText ''12/5'' = ''12''" "denominatorText ''12/5'' = Some ''5''"
    by code_simp+
  have p: "orNull (parseInt ''12'') = Some 12" "orNull (parseInt ''5'') = Some 5"
    by code_simp+
  from parseTrackDisc_spec c
  have "num (parseTrackDisc (Some ''12/5'')) = orNull (parseInt (numeratorText ''12/5''))"
    and "total (parseTrackDisc (Some ''12/5'')) =
          (case denominatorText ''12/5'' of
             None \<Rightarrow> None
           | Some d \<Rightarrow> if d = [] then None else orNull (parseInt d))"
    by blast+
  then have "num (parseTrackDisc (Some ''12/5'')) = Some 12"
    and "total (parseTrackDisc (Some ''12/5'')) = Some 5"
    by (simp_all add: t p)
  with parseTrackDisc_spec a b c t show ?thesis by blast
qed


text \<open>
  The claim as the specification words it asks for no number and no total whenever the
  numerator is unparsable. At \<open>x/12\<close> the numerator is unparsable and the total is 12.
\<close>

theorem parseTrackDisc_unparsable_numerator_counterexample:
  "parseInt ''x'' = None
   \<and> total (parseTrackDisc (Some ''x/12'')) = Some 12
   \<and> parseTrackDisc (Some ''x/12'') \<noteq> \<lparr>num = None, total = None\<rparr>"
  by code_simp


section \<open>Properties of the validator registry\<close>

subsection \<open>The matcher decides the language of a pattern\<close>

lemma nullable_lang: "nullable r \<longleftrightarrow> [] \<in> lang r"
  by (induction r) (auto simp: conc_def chars_def intro: star_empty)

lemma Cons_in_conc:
  "c # w \<in> conc A B \<longleftrightarrow>
     ([] \<in> A \<and> c # w \<in> B) \<or> (\<exists>u v. w = u @ v \<and> c # u \<in> A \<and> v \<in> B)"
  unfolding conc_def by (auto simp: Cons_eq_append_conv)

lemma single_conc:
  "v \<in> conc (chars cs) B \<longleftrightarrow> (\<exists>c w. v = c # w \<and> c \<in> set cs \<and> w \<in> B)"
proof
  assume "v \<in> conc (chars cs) B"
  then obtain u w where uw: "v = u @ w" "u \<in> chars cs" "w \<in> B"
    unfolding conc_def by (auto; blast)
  from uw(2) obtain c where "u = [c]" "c \<in> set cs"
    unfolding chars_def by blast
  with uw show "\<exists>c w. v = c # w \<and> c \<in> set cs \<and> w \<in> B" by simp
next
  assume "\<exists>c w. v = c # w \<and> c \<in> set cs \<and> w \<in> B"
  then obtain c w where cw: "v = c # w" "c \<in> set cs" "w \<in> B" by blast
  then have "[c] \<in> chars cs" and "v = [c] @ w" by (simp_all add: chars_def)
  with cw(3) show "v \<in> conc (chars cs) B" unfolding conc_def by (auto; blast)
qed

lemma conc_optional_suffix:
  "v \<in> conc D (conc {s} D \<union> {[]}) \<longleftrightarrow>
     (\<exists>n. n \<in> D \<and> (v = n \<or> (\<exists>t. t \<in> D \<and> v = n @ s @ t)))"
  unfolding conc_def by (auto; blast)

lemma star_Cons_split:
  assumes "x \<in> star A" and "x = c # w"
  shows "\<exists>u v. w = u @ v \<and> c # u \<in> A \<and> v \<in> star A"
  using assms
proof (induction arbitrary: w rule: star.induct)
  case star_empty
  then show ?case by simp
next
  case (star_step u v)
  show ?case
  proof (cases u)
    case Nil
    with star_step show ?thesis by simp
  next
    case (Cons d u')
    with star_step.prems have "d = c" and "w = u' @ v" by simp_all
    with star_step.hyps(1,2) Cons show ?thesis by blast
  qed
qed

lemma Cons_in_star:
  "c # w \<in> star A \<longleftrightarrow> (\<exists>u v. w = u @ v \<and> c # u \<in> A \<and> v \<in> star A)"
proof
  assume "c # w \<in> star A"
  then show "\<exists>u v. w = u @ v \<and> c # u \<in> A \<and> v \<in> star A"
    by (rule star_Cons_split) simp
next
  assume "\<exists>u v. w = u @ v \<and> c # u \<in> A \<and> v \<in> star A"
  then obtain u v where "w = u @ v" "c # u \<in> A" "v \<in> star A" by blast
  then show "c # w \<in> star A"
    using star_step [of "c # u" A v] by simp
qed

lemma deriv_lang: "w \<in> lang (deriv c r) \<longleftrightarrow> c # w \<in> lang r"
proof (induction r arbitrary: w)
  case (Seq r s)
  have "w \<in> conc (lang (deriv c r)) (lang s)
          \<longleftrightarrow> (\<exists>u v. w = u @ v \<and> c # u \<in> lang r \<and> v \<in> lang s)"
    using Seq.IH(1) unfolding conc_def by auto
  then show ?case
    using Seq.IH(2) by (simp add: Cons_in_conc nullable_lang) blast
next
  case (Star r)
  have "w \<in> conc (lang (deriv c r)) (star (lang r))
          \<longleftrightarrow> (\<exists>u v. w = u @ v \<and> c # u \<in> lang r \<and> v \<in> star (lang r))"
    using Star.IH unfolding conc_def by auto
  then show ?case
    by (simp add: Cons_in_star)
qed (auto simp: chars_def)

lemma test_lang: "test r w \<longleftrightarrow> w \<in> lang r"
  by (induction w arbitrary: r) (simp_all add: nullable_lang deriv_lang)

lemma star_Cls: "star (chars cs) = {v. set v \<subseteq> set cs}"
proof (rule set_eqI, rule iffI)
  fix v assume "v \<in> star (chars cs)"
  then show "v \<in> {v. set v \<subseteq> set cs}"
    by (induction rule: star.induct) (auto simp: chars_def)
next
  fix v assume "v \<in> {v. set v \<subseteq> set cs}"
  then show "v \<in> star (chars cs)"
  proof (induction v)
    case Nil
    show ?case by (rule star_empty)
  next
    case (Cons c v)
    then have "[c] \<in> chars cs" and "v \<in> star (chars cs)" by (simp_all add: chars_def)
    then show ?case using star_step [of "[c]" "chars cs" v] by simp
  qed
qed

lemma lang_Plus_Cls: "lang (Plus (Cls cs)) = {v. v \<noteq> [] \<and> set v \<subseteq> set cs}"
proof -
  have "v \<in> conc (chars cs) {v. set v \<subseteq> set cs} \<longleftrightarrow> v \<noteq> [] \<and> set v \<subseteq> set cs" for v
    by (cases v) (auto simp: single_conc)
  then show ?thesis by (auto simp: Plus_def star_Cls)
qed

lemma lang_Rep_Cls: "lang (Rep n (Cls cs)) = {v. length v = n \<and> set v \<subseteq> set cs}"
proof (induction n)
  case 0
  show ?case by auto
next
  case (Suc n)
  have "v \<in> conc (chars cs) {v. length v = n \<and> set v \<subseteq> set cs}
          \<longleftrightarrow> length v = Suc n \<and> set v \<subseteq> set cs" for v
    by (cases v) (auto simp: single_conc)
  with Suc show ?case by auto
qed

lemma test_Plus_Cls: "test (Plus (Cls cs)) v \<longleftrightarrow> v \<noteq> [] \<and> set v \<subseteq> set cs"
  by (simp add: test_lang lang_Plus_Cls)

lemma test_Rep_Cls: "test (Rep n (Cls cs)) v \<longleftrightarrow> length v = n \<and> set v \<subseteq> set cs"
  by (simp add: test_lang lang_Rep_Cls)

lemma test_position:
  "test (Seq (Plus (Cls ds)) (Opt (Seq (Cls ''/'') (Plus (Cls ds))))) v \<longleftrightarrow>
     (\<exists>n. n \<noteq> [] \<and> set n \<subseteq> set ds
        \<and> (v = n \<or> (\<exists>t. t \<noteq> [] \<and> set t \<subseteq> set ds \<and> v = n @ ''/'' @ t)))"
proof -
  let ?D = "{v. v \<noteq> [] \<and> set v \<subseteq> set ds}"
  have "lang (Seq (Plus (Cls ds)) (Opt (Seq (Cls ''/'') (Plus (Cls ds))))) =
        conc ?D (conc (chars ''/'') ?D \<union> {[]})"
    using lang_Plus_Cls [of ds] by (simp add: Opt_def)
  then have "test (Seq (Plus (Cls ds)) (Opt (Seq (Cls ''/'') (Plus (Cls ds))))) v
               \<longleftrightarrow> v \<in> conc ?D (conc (chars ''/'') ?D \<union> {[]})"
    by (simp only: test_lang)
  also have "\<dots> \<longleftrightarrow> (\<exists>n. n \<in> ?D \<and> (v = n \<or> (\<exists>t. t \<in> ?D \<and> v = n @ ''/'' @ t)))"
    using conc_optional_suffix [of v ?D "''/''"] by (simp add: chars_def)
  finally show ?thesis by simp
qed


subsection \<open>Decimal numerals\<close>

lemma digitChar_values:
  "digitChar 0 = CHR ''0''" "digitChar 1 = CHR ''1''" "digitChar (Suc 0) = CHR ''1''" "digitChar 2 = CHR ''2''"
  "digitChar 3 = CHR ''3''" "digitChar 4 = CHR ''4''" "digitChar 5 = CHR ''5''"
  "digitChar 6 = CHR ''6''" "digitChar 7 = CHR ''7''" "digitChar 8 = CHR ''8''"
  "digitChar 9 = CHR ''9''"
  by code_simp+

lemma below_ten:
  "(d::nat) < 10 \<longleftrightarrow> d = 0 \<or> d = 1 \<or> d = 2 \<or> d = 3 \<or> d = 4 \<or> d = 5 \<or> d = 6 \<or> d = 7
     \<or> d = 8 \<or> d = 9"
  by arith

lemma digitChar_radixDigit: "d < 10 \<Longrightarrow> radixDigit 10 (digitChar d) = Some d"
  unfolding below_ten by (elim disjE) (simp_all add: digitChar_values radixDigit_def)

lemma digitChar_in_digits: "d < 10 \<Longrightarrow> digitChar d \<in> set ''0123456789''"
  unfolding below_ten by (elim disjE) (simp_all add: digitChar_values)

lemma digit_is_digitChar:
  assumes "c \<in> set ''0123456789''"
  shows "\<exists>d<10. c = digitChar d"
proof -
  from assms have "c = digitChar 0 \<or> c = digitChar 1 \<or> c = digitChar 2 \<or> c = digitChar 3
    \<or> c = digitChar 4 \<or> c = digitChar 5 \<or> c = digitChar 6 \<or> c = digitChar 7
    \<or> c = digitChar 8 \<or> c = digitChar 9"
    by (simp add: digitChar_values)
  then show ?thesis
    by (elim disjE) (rule exI [of _ 0], simp, rule exI [of _ 1], simp, rule exI [of _ 2], simp,
        rule exI [of _ 3], simp, rule exI [of _ 4], simp, rule exI [of _ 5], simp,
        rule exI [of _ 6], simp, rule exI [of _ 7], simp, rule exI [of _ 8], simp,
        rule exI [of _ 9], simp)
qed

lemma showNat_four:
  assumes "1000 \<le> n" and "n < 10000"
  shows "showNat n = [digitChar (n div 1000), digitChar (n div 100 mod 10),
                      digitChar (n div 10 mod 10), digitChar (n mod 10)]"
proof -
  have a: "showNat n = showNat (n div 10) @ [digitChar (n mod 10)]"
    using assms showNat.simps [of n] by simp
  have "\<not> n div 10 < 10" using assms by simp
  then have b: "showNat (n div 10) = showNat (n div 100) @ [digitChar (n div 10 mod 10)]"
    using showNat.simps [of "n div 10"] by (simp add: div_mult2_eq [symmetric])
  have "\<not> n div 100 < 10" using assms by simp
  then have c: "showNat (n div 100) = showNat (n div 1000) @ [digitChar (n div 100 mod 10)]"
    using showNat.simps [of "n div 100"] by (simp add: div_mult2_eq [symmetric])
  have "n div 1000 < 10" using assms by simp
  then have d: "showNat (n div 1000) = [digitChar (n div 1000)]"
    using showNat.simps [of "n div 1000"] by simp
  show ?thesis by (simp add: a b c d)
qed

lemma radixValue_snoc:
  "radixValue R (xs @ [c]) =
     radixValue R xs * R + (case radixDigit R c of None \<Rightarrow> 0 | Some v \<Rightarrow> v)"
  by (simp add: radixValue_def)

lemma radixValue_showNat: "radixValue 10 (showNat n) = n"
proof (induction n rule: showNat.induct)
  case (1 n)
  show ?case
  proof (cases "n < 10")
    case True
    then show ?thesis
      using showNat.simps [of n] by (simp add: radixValue_def digitChar_radixDigit)
  next
    case False
    then have "showNat n = showNat (n div 10) @ [digitChar (n mod 10)]"
      using showNat.simps [of n] by simp
    with False "1.IH" show ?thesis
      by (simp add: radixValue_snoc digitChar_radixDigit)
  qed
qed

lemma toNumber_four:
  assumes "a < 10" "b < 10" "c < 10" "d < 10"
  shows "toNumber [digitChar a, digitChar b, digitChar c, digitChar d]
           = int (1000 * a + 100 * b + 10 * c + d)"
  using assms by (simp add: toNumber_def radixValue_def digitChar_radixDigit)

lemma four_digits_of:
  fixes a b c d :: nat
  assumes "a < 10" "b < 10" "c < 10" "d < 10" and "n = 1000 * a + 100 * b + 10 * c + d"
  shows "n div 1000 = a" "n div 100 mod 10 = b" "n div 10 mod 10 = c" "n mod 10 = d"
proof -
  define m2 where "m2 = 10 * a + b"
  define m1 where "m1 = 10 * m2 + c"
  have n: "n = 10 * m1 + d" using assms(5) by (simp add: m1_def m2_def)
  have d1: "n div 10 = m1" using assms(4) unfolding n by simp
  have "n div 100 = n div 10 div 10" using div_mult2_eq [of n 10 10] by simp
  then have d2: "n div 100 = m2" using assms(3) unfolding d1 m1_def by simp
  have "n div 1000 = n div 100 div 10" using div_mult2_eq [of n 100 10] by simp
  then show "n div 1000 = a" using assms(2) unfolding d2 m2_def by simp
  show "n div 100 mod 10 = b" using assms(2) unfolding d2 m2_def by simp
  show "n div 10 mod 10 = c" using assms(3) unfolding d1 m1_def by simp
  show "n mod 10 = d" using assms(4) unfolding n by simp
qed

lemma length_four:
  assumes "length v = 4"
  shows "\<exists>x1 x2 x3 x4. v = [x1, x2, x3, x4]"
proof -
  from assms have "length v = Suc (Suc (Suc (Suc 0)))" by simp
  then show ?thesis by (auto simp: length_Suc_conv)
qed

lemma four_members:
  "set [x1, x2, x3, x4] \<subseteq> D \<longleftrightarrow> x1 \<in> D \<and> x2 \<in> D \<and> x3 \<in> D \<and> x4 \<in> D"
  by simp

lemma year_validator_iff:
  "year_validator v = None \<longleftrightarrow> (\<exists>n. 1000 \<le> n \<and> n \<le> 2099 \<and> v = showNat n)"
proof
  assume "year_validator v = None"
  then have len: "length v = 4" and dig: "set v \<subseteq> set ''0123456789''"
    and lo: "toNumber v \<ge> 1000" and hi: "toNumber v \<le> 2099"
    by (simp_all add: year_validator_def digit_def test_Rep_Cls split: if_splits)
  from len obtain x1 x2 x3 x4 where v: "v = [x1, x2, x3, x4]"
    using length_four by blast
  from dig have mem: "x1 \<in> set ''0123456789''" "x2 \<in> set ''0123456789''"
    "x3 \<in> set ''0123456789''" "x4 \<in> set ''0123456789''"
    unfolding v four_members by blast+
  from digit_is_digitChar [OF mem(1)] obtain a where a: "a < 10" "x1 = digitChar a" by blast
  from digit_is_digitChar [OF mem(2)] obtain b where b: "b < 10" "x2 = digitChar b" by blast
  from digit_is_digitChar [OF mem(3)] obtain c where c: "c < 10" "x3 = digitChar c" by blast
  from digit_is_digitChar [OF mem(4)] obtain d where d: "d < 10" "x4 = digitChar d" by blast
  define n where "n = 1000 * a + 100 * b + 10 * c + d"
  have tn: "toNumber v = int n"
    using toNumber_four [OF a(1) b(1) c(1) d(1)] by (simp add: v a b c d n_def)
  with lo hi have range: "1000 \<le> n" "n \<le> 2099" by simp_all
  have "showNat n = v"
    using showNat_four [of n] range four_digits_of [OF a(1) b(1) c(1) d(1) n_def]
    by (simp add: v a b c d)
  with range show "\<exists>n. 1000 \<le> n \<and> n \<le> 2099 \<and> v = showNat n" by blast
next
  assume "\<exists>n. 1000 \<le> n \<and> n \<le> 2099 \<and> v = showNat n"
  then obtain n where n: "1000 \<le> n" "n \<le> 2099" "v = showNat n" by blast
  have v: "v = [digitChar (n div 1000), digitChar (n div 100 mod 10),
                digitChar (n div 10 mod 10), digitChar (n mod 10)]"
    using n showNat_four [of n] by simp
  have "toNumber v = int n" by (simp add: toNumber_def n(3) radixValue_showNat)
  moreover have "length v = 4" by (simp add: v)
  moreover have "set v \<subseteq> set ''0123456789''"
    unfolding v four_members
    using digitChar_in_digits [of "n div 1000"] digitChar_in_digits [of "n div 100 mod 10"]
      digitChar_in_digits [of "n div 10 mod 10"] digitChar_in_digits [of "n mod 10"] n(2)
    by (intro conjI) simp_all
  ultimately show "year_validator v = None"
    using n by (simp add: year_validator_def digit_def test_Rep_Cls)
qed


subsection \<open>The validators\<close>

lemma bpm_validator_iff:
  "bpm_validator v = None \<longleftrightarrow> v \<noteq> [] \<and> set v \<subseteq> set ''0123456789''"
  by (simp only: bpm_validator_def digit_def test_Plus_Cls split: if_splits) simp

lemma trackNumber_validator_iff: "trackNumber_validator v = None \<longleftrightarrow> isPosition v"
  unfolding trackNumber_validator_def digit_def test_position isPosition_def by simp

lemma discNumber_validator_iff: "discNumber_validator v = None \<longleftrightarrow> isPosition v"
  unfolding discNumber_validator_def digit_def test_position isPosition_def by simp

lemma commentLang_validator_iff:
  "commentLang_validator v = None \<longleftrightarrow>
     length v = 3 \<and> set v \<subseteq> set ''abcdefghijklmnopqrstuvwxyz''"
  unfolding commentLang_validator_def lower_def test_Rep_Cls by simp

lemma lyricsLang_validator_iff:
  "lyricsLang_validator v = None \<longleftrightarrow>
     length v = 3 \<and> set v \<subseteq> set ''abcdefghijklmnopqrstuvwxyz''"
  unfolding lyricsLang_validator_def lower_def test_Rep_Cls by simp

lemma validator_scenarios:
  "bpm_validator ''abc'' \<noteq> None" "bpm_validator ''128'' = None"
  "year_validator ''99'' \<noteq> None" "year_validator ''2024'' = None"
  "trackNumber_validator ''3/10'' = None" "trackNumber_validator ''x'' \<noteq> None"
  by code_simp+

lemma registry_keys:
  "FIELD_VALIDATORS ''bpm'' = Some bpm_validator"
  "FIELD_VALIDATORS ''year'' = Some year_validator"
  "FIELD_VALIDATORS ''trackNumber'' = Some trackNumber_validator"
  "FIELD_VALIDATORS ''discNumber'' = Some discNumber_validator"
  "FIELD_VALIDATORS ''commentLang'' = Some commentLang_validator"
  "FIELD_VALIDATORS ''lyricsLang'' = Some lyricsLang_validator"
  by (simp_all add: FIELD_VALIDATORS_def)

text \<open>
  Claim C9. The registry maps each field key to a function of the input string alone:
  \<open>bpm\<close> accepts exactly the non-empty strings of decimal digits, \<open>year\<close> exactly the
  decimal numerals of the numbers from 1000 to 2099 (four digits), \<open>trackNumber\<close> and
  \<open>discNumber\<close> exactly \<open>N\<close> and \<open>N/Total\<close>, \<open>commentLang\<close> and \<open>lyricsLang\<close>
  exactly three lowercase letters; \<open>bpm\<close> rejects \<open>abc\<close> and accepts \<open>128\<close>,
  \<open>year\<close> rejects \<open>99\<close> and accepts \<open>2024\<close>, \<open>trackNumber\<close> accepts \<open>3/10\<close>
  and rejects \<open>x\<close>.
\<close>

theorem validator_registry_spec:
  "FIELD_VALIDATORS ''bpm'' = Some bpm_validator
   \<and> FIELD_VALIDATORS ''year'' = Some year_validator
   \<and> FIELD_VALIDATORS ''trackNumber'' = Some trackNumber_validator
   \<and> FIELD_VALIDATORS ''discNumber'' = Some discNumber_validator
   \<and> FIELD_VALIDATORS ''commentLang'' = Some commentLang_validator
   \<and> FIELD_VALIDATORS ''lyricsLang'' = Some lyricsLang_validator
   \<and> (bpm_validator v = None \<longleftrightarrow> v \<noteq> [] \<and> set v \<subseteq> set ''0123456789'')
   \<and> (year_validator v = None \<longleftrightarrow> (\<exists>n. 1000 \<le> n \<and> n \<le> 2099 \<and> v = showNat n))
   \<and> (trackNumber_validator v = None \<longleftrightarrow> isPosition v)
   \<and> (discNumber_validator v = None \<longleftrightarrow> isPosition v)
   \<and> (commentLang_validator v = None \<longleftrightarrow>
        length v = 3 \<and> set v \<subseteq> set ''abcdefghijklmnopqrstuvwxyz'')
   \<and> (lyricsLang_validator v = None \<longleftrightarrow>
        length v = 3 \<and> set v \<subseteq> set ''abcdefghijklmnopqrstuvwxyz'')
   \<and> bpm_validator ''abc'' \<noteq> None \<and> bpm_validator ''128'' = None
   \<and> year_validator ''99'' \<noteq> None \<and> year_validator ''2024'' = None
   \<and> trackNumber_validator ''3/10'' = None \<and> trackNumber_validator ''x'' \<noteq> None"
  using registry_keys bpm_validator_iff [of v] year_validator_iff [of v]
    trackNumber_validator_iff [of v] discNumber_validator_iff [of v]
    commentLang_validator_iff [of v] lyricsLang_validator_iff [of v] validator_scenarios
  by blast

text \<open>The characterisations at \<open>128\<close>, at the numeral of 2024, at \<open>3/10\<close> and at \<open>eng\<close>.\<close>

theorem validator_registry_spec_witness:
  "bpm_validator ''128'' = None \<and> ''128'' \<noteq> [] \<and> set ''128'' \<subseteq> set ''0123456789''
   \<and> year_validator (showNat 2024) = None
   \<and> isPosition ''3/10'' \<and> trackNumber_validator ''3/10'' = None
   \<and> commentLang_validator ''eng'' = None"
proof -
  have a: "''128'' \<noteq> [] \<and> set ''128'' \<subseteq> set ''0123456789''" by simp
  have b: "\<exists>n. 1000 \<le> n \<and> n \<le> 2099 \<and> showNat 2024 = showNat n"
    by (rule exI [of _ 2024]) simp
  have c: "trackNumber_validator ''3/10'' = None" by code_simp
  have d: "length ''eng'' = 3 \<and> set ''eng'' \<subseteq> set ''abcdefghijklmnopqrstuvwxyz''" by simp
  from a validator_registry_spec [of "''128''"] have "bpm_validator ''128'' = None" by blast
  moreover from b validator_registry_spec [of "showNat 2024"]
  have "year_validator (showNat 2024) = None" by blast
  moreover from c validator_registry_spec [of "''3/10''"] have "isPosition ''3/10''" by blast
  moreover from d validator_registry_spec [of "''eng''"]
  have "commentLang_validator ''eng'' = None" by blast
  ultimately show ?thesis using a c by blast
qed



section \<open>Properties of the outbound patch\<close>

lemma objKeys_objSet: "set (objKeys (objSet k v ps)) = insert k (set (objKeys ps))"
  by (induction ps) (auto simp: objKeys_def)

lemma objGet_objSet: "objGet (objSet k v ps) k' = (if k' = k then Some v else objGet ps k')"
  by (induction ps) (auto simp: objGet_def)

lemma whenEdited_Edited: "whenEdited (Edited v) assign input = assign v input"
  by (simp add: whenEdited_def)

lemma whenEdited_untouched: "\<not> isEdited fs \<Longrightarrow> whenEdited fs assign input = input"
  by (cases fs) (simp_all add: whenEdited_def isEdited_def)

lemma key_whenEdited:
  "k' \<in> set (objKeys (whenEdited fs (\<lambda>v. objSet k (g v)) input)) \<longleftrightarrow>
     (isEdited fs \<and> k' = k) \<or> k' \<in> set (objKeys input)"
  by (cases fs) (auto simp: whenEdited_def isEdited_def objKeys_objSet)

lemma key_whenEdited2:
  "k' \<in> set (objKeys (whenEdited fs (\<lambda>v. objSet k2 (g2 v) \<circ> objSet k1 (g1 v)) input)) \<longleftrightarrow>
     (isEdited fs \<and> (k' = k1 \<or> k' = k2)) \<or> k' \<in> set (objKeys input)"
  by (cases fs) (auto simp: whenEdited_def isEdited_def objKeys_objSet)

lemma ex_Field:
  "(\<exists>f. P f) \<longleftrightarrow>
     P FTitle \<or> P FArtistNames \<or> P FAlbumTitle \<or> P FAlbumArtist \<or> P FComposer \<or> P FYear
     \<or> P FGenre \<or> P FTrackNumber \<or> P FDiscNumber \<or> P FBpm \<or> P FComment \<or> P FCommentLang
     \<or> P FLyrics \<or> P FLyricsLang"
proof
  assume "\<exists>f. P f"
  then obtain f where "P f" ..
  then show "P FTitle \<or> P FArtistNames \<or> P FAlbumTitle \<or> P FAlbumArtist \<or> P FComposer \<or> P FYear
     \<or> P FGenre \<or> P FTrackNumber \<or> P FDiscNumber \<or> P FBpm \<or> P FComment \<or> P FCommentLang
     \<or> P FLyrics \<or> P FLyricsLang"
    by (cases f) simp_all
next
  assume "P FTitle \<or> P FArtistNames \<or> P FAlbumTitle \<or> P FAlbumArtist \<or> P FComposer \<or> P FYear
     \<or> P FGenre \<or> P FTrackNumber \<or> P FDiscNumber \<or> P FBpm \<or> P FComment \<or> P FCommentLang
     \<or> P FLyrics \<or> P FLyricsLang"
  then show "\<exists>f. P f" by (elim disjE) (erule exI)+
qed

lemma objKeys_Nil: "k \<in> set (objKeys []) \<longleftrightarrow> False"
  by (simp add: objKeys_def)

lemma buildInput_keys:
  "k \<in> set (objKeys (buildInput es)) \<longleftrightarrow>
     (isEdited (discNumber es) \<and> (k = ''discNumber'' \<or> k = ''discTotal''))
     \<or> (isEdited (trackNumber es) \<and> (k = ''trackNumber'' \<or> k = ''trackTotal''))
     \<or> (isEdited (lyricsLang es) \<and> k = ''lyricsLang'')
     \<or> (isEdited (lyrics es) \<and> k = ''lyrics'')
     \<or> (isEdited (commentLang es) \<and> k = ''commentLang'')
     \<or> (isEdited (comment es) \<and> k = ''comment'')
     \<or> (isEdited (bpm es) \<and> k = ''bpm'')
     \<or> (isEdited (year es) \<and> k = ''year'')
     \<or> (isEdited (genre es) \<and> k = ''genre'')
     \<or> (isEdited (composer es) \<and> k = ''composer'')
     \<or> (isEdited (albumArtist es) \<and> k = ''albumArtist'')
     \<or> (isEdited (albumTitle es) \<and> k = ''albumTitle'')
     \<or> (isEdited (artistNames es) \<and> k = ''artistName'')
     \<or> (isEdited (title es) \<and> k = ''title'')"
  unfolding buildInput_def Let_def key_whenEdited key_whenEdited2 objKeys_Nil
  by (simp only: simp_thms)


lemma edited_key_in_patch:
  assumes "fieldEdited es f" and "k \<in> set (inputKeys f)"
  shows "k \<in> set (objKeys (buildInput es))"
  using assms by (cases f) (auto simp: buildInput_keys)

lemma patch_key_edited:
  assumes "k \<in> set (objKeys (buildInput es))"
  shows "\<exists>f. fieldEdited es f \<and> k \<in> set (inputKeys f)"
proof -
  from assms consider
      "isEdited (discNumber es)" "k = ''discNumber'' \<or> k = ''discTotal''"
    | "isEdited (trackNumber es)" "k = ''trackNumber'' \<or> k = ''trackTotal''"
    | "isEdited (lyricsLang es)" "k = ''lyricsLang''"
    | "isEdited (lyrics es)" "k = ''lyrics''"
    | "isEdited (commentLang es)" "k = ''commentLang''"
    | "isEdited (comment es)" "k = ''comment''"
    | "isEdited (bpm es)" "k = ''bpm''"
    | "isEdited (year es)" "k = ''year''"
    | "isEdited (genre es)" "k = ''genre''"
    | "isEdited (composer es)" "k = ''composer''"
    | "isEdited (albumArtist es)" "k = ''albumArtist''"
    | "isEdited (albumTitle es)" "k = ''albumTitle''"
    | "isEdited (artistNames es)" "k = ''artistName''"
    | "isEdited (title es)" "k = ''title''"
    unfolding buildInput_keys by argo
  then show ?thesis
  proof cases
    case 1 then show ?thesis by (intro exI [of _ FDiscNumber]) auto
  next
    case 2 then show ?thesis by (intro exI [of _ FTrackNumber]) auto
  next
    case 3 then show ?thesis by (intro exI [of _ FLyricsLang]) simp
  next
    case 4 then show ?thesis by (intro exI [of _ FLyrics]) simp
  next
    case 5 then show ?thesis by (intro exI [of _ FCommentLang]) simp
  next
    case 6 then show ?thesis by (intro exI [of _ FComment]) simp
  next
    case 7 then show ?thesis by (intro exI [of _ FBpm]) simp
  next
    case 8 then show ?thesis by (intro exI [of _ FYear]) simp
  next
    case 9 then show ?thesis by (intro exI [of _ FGenre]) simp
  next
    case 10 then show ?thesis by (intro exI [of _ FComposer]) simp
  next
    case 11 then show ?thesis by (intro exI [of _ FAlbumArtist]) simp
  next
    case 12 then show ?thesis by (intro exI [of _ FAlbumTitle]) simp
  next
    case 13 then show ?thesis by (intro exI [of _ FArtistNames]) simp
  next
    case 14 then show ?thesis by (intro exI [of _ FTitle]) simp
  qed
qed

lemma buildInput_no_edit:
  assumes "\<not> hasAnyEditIn es"
  shows "buildInput es = []"
  using assms by (simp add: hasAnyEditIn_def buildInput_def whenEdited_untouched)

lemma buildInput_title_only:
  assumes "fieldEdited es FTitle" and "\<forall>f. f \<noteq> FTitle \<longrightarrow> \<not> fieldEdited es f"
  shows "objKeys (buildInput es) = [''title'']"
proof -
  from assms(1) obtain v where t: "title es = Edited v"
    by (cases "title es") (simp_all add: isEdited_def)
  have others: "\<not> isEdited (artistNames es)" "\<not> isEdited (albumTitle es)"
    "\<not> isEdited (albumArtist es)" "\<not> isEdited (composer es)" "\<not> isEdited (year es)"
    "\<not> isEdited (genre es)" "\<not> isEdited (trackNumber es)" "\<not> isEdited (discNumber es)"
    "\<not> isEdited (bpm es)" "\<not> isEdited (comment es)" "\<not> isEdited (commentLang es)"
    "\<not> isEdited (lyrics es)" "\<not> isEdited (lyricsLang es)"
    using assms(2) [rule_format, of FArtistNames] assms(2) [rule_format, of FAlbumTitle]
      assms(2) [rule_format, of FAlbumArtist] assms(2) [rule_format, of FComposer]
      assms(2) [rule_format, of FYear] assms(2) [rule_format, of FGenre]
      assms(2) [rule_format, of FTrackNumber] assms(2) [rule_format, of FDiscNumber]
      assms(2) [rule_format, of FBpm] assms(2) [rule_format, of FComment]
      assms(2) [rule_format, of FCommentLang] assms(2) [rule_format, of FLyrics]
      assms(2) [rule_format, of FLyricsLang]
    by simp_all
  show ?thesis
    by (simp add: buildInput_def t others whenEdited_untouched whenEdited_Edited objKeys_def)
qed

text \<open>
  Claim C2. The patch that \<open>save\<close> builds contains a key of a field if and only if
  that field's state is edited: a session with no edited field yields the empty patch,
  and a session in which only the title is edited yields a patch with the key \<open>title\<close>
  and no other.
\<close>

theorem patch_keys_iff_edited:
  "(k \<in> set (objKeys (buildInput es)) \<longleftrightarrow> (\<exists>f. fieldEdited es f \<and> k \<in> set (inputKeys f)))
   \<and> (\<not> hasAnyEditIn es \<longrightarrow> buildInput es = [])
   \<and> (fieldEdited es FTitle \<and> (\<forall>f. f \<noteq> FTitle \<longrightarrow> \<not> fieldEdited es f)
        \<longrightarrow> objKeys (buildInput es) = [''title''])"
  using edited_key_in_patch [of es _ k] patch_key_edited [of k es] buildInput_no_edit [of es]
    buildInput_title_only [of es]
  by blast


lemma buildEditState_baseTrack:
  "buildEditState [baseTrack] =
     \<lparr>title = Uniform ''My Song'', artistNames = Uniform [''Test Artist''],
      albumTitle = Uniform (Some ''Test Album''), albumArtist = Uniform None,
      composer = Uniform None, year = Uniform None, genre = Uniform None,
      trackNumber = Uniform (Some ''5''), discNumber = Uniform (Some ''1''),
      bpm = Uniform None, comment = Uniform None, commentLang = Uniform None,
      lyrics = Uniform (Some ''Some lyrics here''), lyricsLang = Uniform None\<rparr>"
  by code_simp

text \<open>
  The theorem at the reconciliation of \<open>baseTrack\<close>, untouched and with its title edited.
\<close>

theorem patch_keys_iff_edited_witness:
  "fieldEdited ((buildEditState [baseTrack])\<lparr>title := Edited ''New Title''\<rparr>) FTitle
   \<and> buildInput ((buildEditState [baseTrack])\<lparr>title := Edited ''New Title''\<rparr>)
       = [(''title'', JStr ''New Title'')]
   \<and> \<not> hasAnyEditIn (buildEditState [baseTrack])
   \<and> buildInput (buildEditState [baseTrack]) = []"
proof -
  let ?es = "(buildEditState [baseTrack])\<lparr>title := Edited ''New Title''\<rparr>"
  have t: "fieldEdited ?es FTitle" by (simp add: isEdited_def)
  have o: "\<forall>f. f \<noteq> FTitle \<longrightarrow> \<not> fieldEdited ?es f"
  proof (intro allI impI)
    fix f :: Field
    assume "f \<noteq> FTitle"
    then show "\<not> fieldEdited ?es f"
      by (cases f) (simp_all add: buildEditState_baseTrack isEdited_def)
  qed
  have n: "\<not> hasAnyEditIn (buildEditState [baseTrack])"
    by (simp add: buildEditState_baseTrack hasAnyEditIn_def isEdited_def)
  from patch_keys_iff_edited [of "''title''" ?es] t o
  have k: "objKeys (buildInput ?es) = [''title'']" by blast
  have v: "objGet (buildInput ?es) ''title'' = Some (JStr ''New Title'')"
    by (simp add: buildInput_def buildEditState_baseTrack whenEdited_def objGet_def)
  from k v have "buildInput ?es = [(''title'', JStr ''New Title'')]"
    by (cases "buildInput ?es") (auto simp: objKeys_def objGet_def)
  moreover from patch_keys_iff_edited [of "''title''" "buildEditState [baseTrack]"] n
  have "buildInput (buildEditState [baseTrack]) = []" by blast
  ultimately show ?thesis using t n by blast
qed

subsection \<open>Positions in the patch\<close>

lemma objGet_whenEdited:
  "objGet (whenEdited fs (\<lambda>v. objSet k (g v)) input) k' =
     (case fs of Edited v \<Rightarrow> if k' = k then Some (g v) else objGet input k'
      | _ \<Rightarrow> objGet input k')"
  by (cases fs) (simp_all add: whenEdited_def objGet_objSet)

lemma objGet_whenEdited2:
  "objGet (whenEdited fs (\<lambda>v. objSet k2 (g2 v) \<circ> objSet k1 (g1 v)) input) k' =
     (case fs of Edited v \<Rightarrow> if k' = k2 then Some (g2 v) else if k' = k1 then Some (g1 v)
                              else objGet input k'
      | _ \<Rightarrow> objGet input k')"
  by (cases fs) (simp_all add: whenEdited_def objGet_objSet)

lemma numOrNull_position:
  "numOrNull (num (parseTrackDisc v)) \<noteq> JNum 0"
  "numOrNull (total (parseTrackDisc v)) \<noteq> JNum 0"
  using parseTrackDisc_nonzero [of v] by (auto simp: numOrNull_def split: option.splits)

lemma skip_whenEdited:
  "k' \<noteq> k \<Longrightarrow> objGet (whenEdited fs (\<lambda>v. objSet k (g v)) input) k' = objGet input k'"
  by (cases fs) (simp_all add: whenEdited_def objGet_objSet)

lemma skip_whenEdited2:
  "k' \<noteq> k1 \<Longrightarrow> k' \<noteq> k2 \<Longrightarrow>
   objGet (whenEdited fs (\<lambda>v. objSet k2 (g2 v) \<circ> objSet k1 (g1 v)) input) k' = objGet input k'"
  by (cases fs) (simp_all add: whenEdited_def objGet_objSet)

lemma objGet_Nil: "objGet [] k = None"
  by (simp add: objGet_def)

lemma buildInput_trackNumber:
  "objGet (buildInput es) ''trackNumber'' =
     (case trackNumber es of Edited v \<Rightarrow> Some (numOrNull (num (parseTrackDisc v))) | _ \<Rightarrow> None)"
  unfolding buildInput_def Let_def
  by (simp add: skip_whenEdited skip_whenEdited2 objGet_whenEdited2 objGet_Nil
      split: FieldState.splits)

lemma buildInput_trackTotal:
  "objGet (buildInput es) ''trackTotal'' =
     (case trackNumber es of Edited v \<Rightarrow> Some (numOrNull (total (parseTrackDisc v))) | _ \<Rightarrow> None)"
  unfolding buildInput_def Let_def
  by (simp add: skip_whenEdited skip_whenEdited2 objGet_whenEdited2 objGet_Nil
      split: FieldState.splits)

lemma buildInput_discNumber:
  "objGet (buildInput es) ''discNumber'' =
     (case discNumber es of Edited v \<Rightarrow> Some (numOrNull (num (parseTrackDisc v))) | _ \<Rightarrow> None)"
  unfolding buildInput_def Let_def
  by (simp add: skip_whenEdited skip_whenEdited2 objGet_whenEdited2 objGet_Nil
      split: FieldState.splits)

lemma buildInput_discTotal:
  "objGet (buildInput es) ''discTotal'' =
     (case discNumber es of Edited v \<Rightarrow> Some (numOrNull (total (parseTrackDisc v))) | _ \<Rightarrow> None)"
  unfolding buildInput_def Let_def
  by (simp add: skip_whenEdited skip_whenEdited2 objGet_whenEdited2 objGet_Nil
      split: FieldState.splits)

lemma position_examples:
  "parseTrackDisc (Some ''0'') = \<lparr>num = None, total = None\<rparr>"
  "parseTrackDisc (Some ''0/12'') = \<lparr>num = None, total = Some 12\<rparr>"
  "parseTrackDisc (Some ''5/0'') = \<lparr>num = Some 5, total = None\<rparr>"
  "trackNumber_validator ''0'' = None" "trackNumber_validator ''0/12'' = None"
  "discNumber_validator ''0'' = None" "discNumber_validator ''0/12'' = None"
  by code_simp+

text \<open>
  Claim C10. The parser treats a zero as absent: \<open>0\<close> and \<open>0/12\<close> have no number and
  \<open>5/0\<close> has no total, although the position validators accept \<open>0\<close> and \<open>0/12\<close>;
  the parser never yields a zero, and the patch never carries a zero track or disc
  number or total.
\<close>

theorem zero_position_never_committed:
  "parseTrackDisc (Some ''0'') = \<lparr>num = None, total = None\<rparr>
   \<and> parseTrackDisc (Some ''0/12'') = \<lparr>num = None, total = Some 12\<rparr>
   \<and> parseTrackDisc (Some ''5/0'') = \<lparr>num = Some 5, total = None\<rparr>
   \<and> trackNumber_validator ''0'' = None \<and> trackNumber_validator ''0/12'' = None
   \<and> discNumber_validator ''0'' = None \<and> discNumber_validator ''0/12'' = None
   \<and> num (parseTrackDisc val) \<noteq> Some 0 \<and> total (parseTrackDisc val) \<noteq> Some 0
   \<and> objGet (buildInput es) ''trackNumber'' \<noteq> Some (JNum 0)
   \<and> objGet (buildInput es) ''trackTotal'' \<noteq> Some (JNum 0)
   \<and> objGet (buildInput es) ''discNumber'' \<noteq> Some (JNum 0)
   \<and> objGet (buildInput es) ''discTotal'' \<noteq> Some (JNum 0)"
proof -
  have "objGet (buildInput es) ''trackNumber'' \<noteq> Some (JNum 0)"
    "objGet (buildInput es) ''trackTotal'' \<noteq> Some (JNum 0)"
    "objGet (buildInput es) ''discNumber'' \<noteq> Some (JNum 0)"
    "objGet (buildInput es) ''discTotal'' \<noteq> Some (JNum 0)"
    by (simp_all add: buildInput_trackNumber buildInput_trackTotal buildInput_discNumber
        buildInput_discTotal numOrNull_position split: FieldState.splits)
  with position_examples parseTrackDisc_nonzero [of val] show ?thesis by blast
qed

text \<open>The patch of a session whose track number was edited to \<open>0/12\<close>.\<close>

theorem zero_position_never_committed_witness:
  "objGet (buildInput ((buildEditState [baseTrack])\<lparr>trackNumber := Edited (Some ''0/12'')\<rparr>))
     ''trackNumber'' = Some JNull
   \<and> objGet (buildInput ((buildEditState [baseTrack])\<lparr>trackNumber := Edited (Some ''0/12'')\<rparr>))
     ''trackNumber'' \<noteq> Some (JNum 0)"
proof -
  let ?es = "(buildEditState [baseTrack])\<lparr>trackNumber := Edited (Some ''0/12'')\<rparr>"
  have "num (parseTrackDisc (Some ''0/12'')) = None" by code_simp
  then have "objGet (buildInput ?es) ''trackNumber'' = Some JNull"
    by (simp add: buildInput_trackNumber numOrNull_def)
  with zero_position_never_committed [of "Some ''0/12''" ?es] show ?thesis by blast
qed



section \<open>Properties of the editor panel\<close>

lemma loadedPanel_single:
  "(let (s1, cmds, a) = loadEffect [1] (initialPanel [1]);
        (s2, next2) = resume a (TrackResults [StatusOk baseTrack]) s1;
        (s3, next3) = resume LoadExtraTags (ExtraTagsResult (StatusOk [])) s2
    in (cmds, next2, s3, next3))
   = ([GetTrack 1, ListArtists, ListAlbums], Some ([GetTrackExtraTags 1], LoadExtraTags),
      loadedPanel [baseTrack], None)"
  by (simp add: loadEffect_def initialPanel_def loadedPanel_def baseTrack_def Let_def)

lemma setField_tracks: "tracks (setField upd st) = tracks st"
  by (simp add: setField_def split: option.splits)

lemma setField_editState:
  "editState st \<noteq> None \<Longrightarrow> editState (setField upd st) \<noteq> None"
  by (simp add: setField_def split: option.splits)

lemma handle_tracks: "tracks (handle ev st) = tracks st"
  by (cases ev) (simp_all add: setField_tracks split: option.splits FieldState.splits)

lemma handle_editState: "editState st \<noteq> None \<Longrightarrow> editState (handle ev st) \<noteq> None"
  by (cases ev) (auto simp: setField_def split: option.splits FieldState.splits)

lemma uiEvents_live:
  "editState st \<noteq> None \<Longrightarrow>
   tracks (uiEvents evs st) = tracks st \<and> editState (uiEvents evs st) \<noteq> None"
proof (induction evs arbitrary: st)
  case Nil
  then show ?case by simp
next
  case (Cons ev evs)
  have "tracks (uiEvent ev st) = tracks st" "editState (uiEvent ev st) \<noteq> None"
    using Cons.prems by (simp_all add: uiEvent_def handle_tracks handle_editState del: not_None_eq)
  with Cons.IH [of "uiEvent ev st"] show ?case by simp
qed

lemma computeField_not_edited: "\<not> isEdited (computeField ts extract eq)"
  by (simp add: computeField_def isEdited_def Let_def split: option.splits)

lemma buildEditState_not_edited: "\<not> hasAnyEditIn (buildEditState ts)"
  by (simp add: hasAnyEditIn_def buildEditState_def computeField_not_edited)

lemma edited_title_single:
  "uiEvents [ChangeTitle ''New Title''] (loadedPanel [baseTrack]) =
     (loadedPanel [baseTrack])
       \<lparr>editState := Some ((buildEditState [baseTrack])\<lparr>title := Edited ''New Title''\<rparr>)\<rparr>"
  by (simp add: uiEvent_def editorShown_def loadedPanel_def setField_def)

lemma edits_then_errors:
  "uiEvents [ChangeTitle ''New Title'', ChangeBpm ''abc''] (loadedPanel [baseTrack]) =
     (loadedPanel [baseTrack])
       \<lparr>editState := Some ((buildEditState [baseTrack])
                             \<lparr>title := Edited ''New Title'', bpm := Edited (Some ''abc'')\<rparr>),
        errors := [(''bpm'', ''Must be a non-negative integer'')]\<rparr>"
  by code_simp

text \<open>
  Claim C6. A commit is refused, with the state unchanged and no command dispatched,
  whenever no field is edited, a commit is in flight, the acknowledgment of the previous
  commit is still showing, or a validation error is recorded in the field error map or
  the extra-tag error map. The refusal is the disabled Save button: \<open>save\<close> has no other
  caller. \<open>save\<close> itself runs the validators again and dispatches nothing when one
  of them fails.
\<close>

theorem commit_refused:
  assumes "\<not> hasAnyEdit st \<or> saving st \<or> saved st \<or> hasValidationErrors st"
  shows "clickSave st = (st, None) \<and> dispatched (clickSave st) = []
         \<and> (\<not> fst (validate st) \<longrightarrow> dispatched (save st) = [])"
proof -
  have "dispatched (save st) = []" if "\<not> fst (validate st)"
    using that by (cases "validate st") (simp add: save_def dispatched_def split: option.splits)
  with assms show ?thesis
    by (simp add: clickSave_def saveDisabled_def dispatched_def)
qed

text \<open>
  The theorem at the freshly loaded \<open>baseTrack\<close> (nothing edited) and, with the title
  edited, while saving, while acknowledged and with an error recorded; with the title
  edited and none of the four, the update is dispatched.
\<close>

theorem commit_refused_witness:
  "\<not> hasAnyEdit (loadedPanel [baseTrack])
   \<and> clickSave (loadedPanel [baseTrack]) = (loadedPanel [baseTrack], None)
   \<and> dispatched (clickSave (uiEvents [ChangeTitle ''New Title''] (loadedPanel [baseTrack])))
       = [UpdateTrack 1 [(''title'', JStr ''New Title'')]]
   \<and> dispatched (clickSave ((uiEvents [ChangeTitle ''New Title''] (loadedPanel [baseTrack]))
                               \<lparr>saving := True\<rparr>)) = []
   \<and> dispatched (clickSave ((uiEvents [ChangeTitle ''New Title''] (loadedPanel [baseTrack]))
                               \<lparr>saved := True\<rparr>)) = []
   \<and> dispatched (clickSave ((uiEvents [ChangeTitle ''New Title''] (loadedPanel [baseTrack]))
                               \<lparr>errors := [(''bpm'', ''Must be a non-negative integer'')]\<rparr>)) = []"
proof -
  let ?st = "loadedPanel [baseTrack]"
  let ?ed = "uiEvents [ChangeTitle ''New Title''] (loadedPanel [baseTrack])"
  have a: "\<not> hasAnyEdit ?st"
    by (simp add: hasAnyEdit_def loadedPanel_def buildEditState_not_edited)
  have b: "saving (?ed\<lparr>saving := True\<rparr>)" "saved (?ed\<lparr>saved := True\<rparr>)"
    "hasValidationErrors (?ed\<lparr>errors := [(''bpm'', ''Must be a non-negative integer'')]\<rparr>)"
    by (simp_all add: hasValidationErrors_def objKeys_def)
  have c: "dispatched (clickSave ?ed) = [UpdateTrack 1 [(''title'', JStr ''New Title'')]]"
    unfolding edited_title_single by code_simp
  from commit_refused [of ?st] a
  have "clickSave ?st = (?st, None)" by blast
  moreover from commit_refused [of "?ed\<lparr>saving := True\<rparr>"] b(1)
  have "dispatched (clickSave (?ed\<lparr>saving := True\<rparr>)) = []" by blast
  moreover from commit_refused [of "?ed\<lparr>saved := True\<rparr>"] b(2)
  have "dispatched (clickSave (?ed\<lparr>saved := True\<rparr>)) = []" by blast
  moreover from commit_refused
    [of "?ed\<lparr>errors := [(''bpm'', ''Must be a non-negative integer'')]\<rparr>"] b(3)
  have "dispatched (clickSave
          (?ed\<lparr>errors := [(''bpm'', ''Must be a non-negative integer'')]\<rparr>)) = []"
    by blast
  ultimately show ?thesis using a c by blast
qed

text \<open>
  Claim C7. In a live session (an edit state over a non-empty record set), after any
  sequence of input events, with the validation errors they record, \<open>discard\<close> puts
  every field back to the reconciliation of the records loaded before the edits, so
  that no field is edited, and empties the field error map and the extra-tag error map.
  The Discard button runs \<open>discard\<close> whenever a field is edited.
\<close>

theorem discard_restores:
  assumes "editState st \<noteq> None" and "tracks st \<noteq> []"
  shows "editState (discard (uiEvents evs st)) = Some (buildEditState (tracks st))
         \<and> (\<forall>f. \<not> fieldEdited (buildEditState (tracks st)) f)
         \<and> \<not> hasAnyEdit (discard (uiEvents evs st))
         \<and> errors (discard (uiEvents evs st)) = []
         \<and> extraTagErrors (discard (uiEvents evs st)) = []
         \<and> (editorShown (uiEvents evs st) \<and> hasAnyEdit (uiEvents evs st)
              \<longrightarrow> clickDiscard (uiEvents evs st) = discard (uiEvents evs st))"
proof -
  from uiEvents_live [OF assms(1), of evs] assms(2)
  have live: "tracks (uiEvents evs st) = tracks st" "editState (uiEvents evs st) \<noteq> None"
    "tracks (uiEvents evs st) \<noteq> []"
    by simp_all
  then have d: "discard (uiEvents evs st) =
      (uiEvents evs st)\<lparr>editState := Some (buildEditState (tracks st)), errors := [],
                         extraTagErrors := []\<rparr>"
    by (simp add: discard_def del: not_None_eq)
  have "\<not> fieldEdited (buildEditState (tracks st)) f" for f
    using buildEditState_not_edited [of "tracks st"]
    by (cases f) (simp_all add: hasAnyEditIn_def)
  then show ?thesis
    using buildEditState_not_edited [of "tracks st"]
    by (simp add: d hasAnyEdit_def clickDiscard_def)
qed


text \<open>The theorem after a title edit and an invalid BPM on the loaded \<open>baseTrack\<close>.\<close>

theorem discard_restores_witness:
  "editState (loadedPanel [baseTrack]) \<noteq> None \<and> tracks (loadedPanel [baseTrack]) \<noteq> []
   \<and> hasAnyEdit (uiEvents [ChangeTitle ''New Title'', ChangeBpm ''abc''] (loadedPanel [baseTrack]))
   \<and> errors (uiEvents [ChangeTitle ''New Title'', ChangeBpm ''abc''] (loadedPanel [baseTrack]))
        = [(''bpm'', ''Must be a non-negative integer'')]
   \<and> editState (discard (uiEvents [ChangeTitle ''New Title'', ChangeBpm ''abc'']
                            (loadedPanel [baseTrack])))
        = Some (buildEditState [baseTrack])
   \<and> errors (discard (uiEvents [ChangeTitle ''New Title'', ChangeBpm ''abc'']
                         (loadedPanel [baseTrack]))) = []"
proof -
  let ?st = "loadedPanel [baseTrack]"
  let ?evs = "[ChangeTitle ''New Title'', ChangeBpm ''abc'']"
  have h: "editState ?st \<noteq> None" "tracks ?st \<noteq> []" "tracks ?st = [baseTrack]"
    by (simp_all add: loadedPanel_def)
  have e: "hasAnyEdit (uiEvents ?evs ?st)"
    "errors (uiEvents ?evs ?st) = [(''bpm'', ''Must be a non-negative integer'')]"
    unfolding edits_then_errors by (simp_all add: hasAnyEdit_def hasAnyEditIn_def isEdited_def)
  from discard_restores [OF h(1,2), of ?evs] h e show ?thesis by simp
qed

subsection \<open>A commit that fails\<close>

lemma commit_rejection_keeps_session:
  "resume (SaveUpdateTrack i tags) Rejects st = (st\<lparr>saving := False\<rparr>, None)"
  "resume (SaveBatchUpdate ids) Rejects st = (st\<lparr>saving := False\<rparr>, None)"
  by simp_all

lemma error_result_sets_saved:
  "saved (fst (resume (SaveUpdateTrack i tags) (UpdateResult StatusError) st))"
  "saved (fst (resume SaveReload (TrackResults results)
                 (fst (resume (SaveBatchUpdate ids) (BatchResult StatusError) st))))"
  by (simp_all add: afterDispatch_def Let_def)

text \<open>
  Claim C1 asks that a commit whose update call fails leave the session as it was before
  the commit and set no acknowledgment. A rejected promise does so. An update that
  fulfils with an error result sets the acknowledgment in every state (the two lemmas
  above): in single selection \<open>save\<close> skips the state update and then sets \<open>saved\<close>
  all the same; in multiple selection it never reads the result of the batch update,
  reloads the records, rebuilds the edit state from them, which drops the edits, and
  sets \<open>saved\<close>. The evaluation is at \<open>baseTrack\<close> with its title edited, alone and
  together with \<open>trackB\<close>.
\<close>

theorem commit_error_result_acknowledged:
  "(let st = uiEvents [ChangeTitle ''New Title''] (loadedPanel [baseTrack]);
        (st1, next1) = clickSave st;
        (st2, next2) = resume (SaveUpdateTrack 1 []) (UpdateResult StatusError) st1
    in next1 = Some ([UpdateTrack 1 [(''title'', JStr ''New Title'')]], SaveUpdateTrack 1 [])
       \<and> editState st2 = editState st \<and> saved st2)
   \<and> (let st = uiEvents [ChangeTitle ''New Title''] (loadedPanel [baseTrack, trackB]);
          (st1, next1) = clickSave st;
          (st2, next2) = resume (SaveBatchUpdate [1, 2]) (BatchResult StatusError) st1;
          (st3, next3) = resume SaveReload (TrackResults [StatusOk baseTrack, StatusOk trackB]) st2
      in next1 = Some ([BatchUpdateTracks [1, 2] [(''title'', JStr ''New Title'')]],
                       SaveBatchUpdate [1, 2])
         \<and> next2 = Some ([GetTrack 1, GetTrack 2], SaveReload)
         \<and> editState st = Some ((buildEditState [baseTrack, trackB])\<lparr>title := Edited ''New Title''\<rparr>)
         \<and> editState st3 = Some (buildEditState [baseTrack, trackB])
         \<and> editState st3 \<noteq> editState st
         \<and> saved st3)"
  by code_simp

subsection \<open>A load that arrives late\<close>

text \<open>
  Claim C5 asks that the result of a load be dropped when the selection has changed
  while it was in flight. The load effect has no cancellation flag and no check of the
  selection: the continuation of \<open>load\<close> writes whatever arrives. The evaluation:
  selection \<open>[1]\<close> is replaced by \<open>[2]\<close> before its load resolves; the load of
  \<open>[2]\<close> arrives and is shown; the load of \<open>[1]\<close> arrives after it and overwrites
  the records and the edit state of selection \<open>[2]\<close>.
\<close>

theorem stale_load_overwrites:
  "(let (s1, c1, a1) = loadEffect [1] (initialPanel [1]);
        (s2, c2, a2) = loadEffect [2] s1;
        (s3, n3) = resume a2 (TrackResults [StatusOk trackB]) s2;
        (s4, n4) = resume LoadExtraTags (ExtraTagsResult (StatusOk [])) s3;
        (s5, n5) = resume a1 (TrackResults [StatusOk baseTrack]) s4
    in trackIds s4 = [2] \<and> tracks s4 = [trackB] \<and> editState s4 = Some (buildEditState [trackB])
       \<and> trackIds s5 = [2] \<and> tracks s5 = [baseTrack]
       \<and> editState s5 = Some (buildEditState [baseTrack]))"
  by (simp add: loadEffect_def initialPanel_def Let_def)


section \<open>Properties of the lookup cache\<close>

lemma inv_init: "cache_inv initCache"
  by (simp add: cache_inv_def initCache_def fetched_known_def fulfilled_cached_def
      pending_keyed_def listeners_keyed_def)

lemma inv_effect:
  assumes "cache_inv s"
  shows "cache_inv (effect c k arg s)"
proof (cases "cache s k")
  case (Some v)
  with assms show ?thesis
    by (simp add: effect_def cache_inv_def fetched_known_def fulfilled_cached_def
        pending_keyed_def listeners_keyed_def)
next
  case None
  show ?thesis
  proof (cases "pending s k")
    case (Some p)
    from assms Some have "p < length (promises s)" "fst (promises s ! p) = k"
      by (auto simp: cache_inv_def pending_keyed_def)
    with assms None Some show ?thesis
      by (simp add: effect_def cache_inv_def fetched_known_def fulfilled_cached_def
          pending_keyed_def listeners_keyed_def nth_append)
  next
    case pn: None
    from assms None pn have fresh: "k \<notin> fst ` set (fetches s)"
      by (auto simp: cache_inv_def fetched_known_def)
    let ?s = "effect c k arg s"
    have eff: "?s = s\<lparr>fetches := fetches s @ [(k, arg)],
                  promises := promises s @ [(k, InFlight)],
                  pending := (pending s)(k \<mapsto> length (promises s)),
                  listeners := listeners s
                    @ [\<lparr>caller = c, promise = length (promises s), key = k, cancelled = False,
                        ran = False\<rparr>]\<rparr>"
      using None pn by (simp add: effect_def Let_def)
    have 1: "distinct (map fst (fetches ?s))"
      using assms fresh by (simp add: eff cache_inv_def)
    have 2: "fetched_known ?s"
      using assms by (auto simp: eff cache_inv_def fetched_known_def)
    have 3: "fulfilled_cached ?s"
      using assms by (auto simp: eff cache_inv_def fulfilled_cached_def nth_append less_Suc_eq)
    have 4: "pending_keyed ?s"
      using assms by (auto simp: eff cache_inv_def pending_keyed_def nth_append less_Suc_eq)
    have 5: "listeners_keyed ?s"
      using assms by (auto simp: eff cache_inv_def listeners_keyed_def nth_append less_Suc_eq)
    from 1 2 3 4 5 show ?thesis by (simp add: cache_inv_def)
  qed
qed

lemma inv_cleanup:
  assumes "cache_inv s"
  shows "cache_inv (cleanup i s)"
  using assms
  by (auto simp: cleanup_def cache_inv_def fetched_known_def fulfilled_cached_def
      pending_keyed_def listeners_keyed_def nth_list_update)

lemma inv_settle:
  assumes "cache_inv s"
  shows "cache_inv (settle p response s)"
proof (cases "p < length (promises s) \<and> snd (promises s ! p) = InFlight")
  case False
  with assms show ?thesis by (auto simp: settle_def)
next
  case True
  show ?thesis
  proof (cases response)
    case CoverRejects
    have eff: "settle p response s =
        s\<lparr>promises := (promises s)[p := (fst (promises s ! p), Rejected)]\<rparr>"
      using True CoverRejects by (simp add: settle_def)
    have 2: "fetched_known (settle p response s)"
      using assms by (simp add: eff cache_inv_def fetched_known_def)
    have 3: "fulfilled_cached (settle p response s)"
      using assms True by (auto simp: eff cache_inv_def fulfilled_cached_def nth_list_update)
    have 4: "pending_keyed (settle p response s)"
      using assms True by (auto simp: eff cache_inv_def pending_keyed_def nth_list_update)
    have 5: "listeners_keyed (settle p response s)"
      using assms True by (auto simp: eff cache_inv_def listeners_keyed_def nth_list_update)
    from assms 2 3 4 5 show ?thesis by (simp add: cache_inv_def eff)
  next
    case (CoverResult res)
    have eff: "settle p response s =
        s\<lparr>cache := (cache s)(fst (promises s ! p) \<mapsto> coverUrl res),
          promises := (promises s)[p := (fst (promises s ! p), Fulfilled (coverUrl res))]\<rparr>"
      using True CoverResult by (simp add: settle_def)
    have 2: "fetched_known (settle p response s)"
      using assms by (simp add: eff cache_inv_def fetched_known_def)
    have 3: "fulfilled_cached (settle p response s)"
      using assms True by (auto simp: eff cache_inv_def fulfilled_cached_def nth_list_update)
    have 4: "pending_keyed (settle p response s)"
      using assms True by (auto simp: eff cache_inv_def pending_keyed_def nth_list_update)
    have 5: "listeners_keyed (settle p response s)"
      using assms True by (auto simp: eff cache_inv_def listeners_keyed_def nth_list_update)
    from assms 2 3 4 5 show ?thesis by (simp add: cache_inv_def eff)
  qed
qed

lemma inv_react:
  assumes "cache_inv s"
  shows "cache_inv (react i s)"
proof (cases "i < length (listeners s) \<and> \<not> ran (listeners s ! i)
         \<and> promise (listeners s ! i) < length (promises s)
         \<and> (\<exists>url. snd (promises s ! promise (listeners s ! i)) = Fulfilled url)")
  case False
  with assms show ?thesis by (auto simp: react_def split: PromiseState.splits)
next
  case True
  then obtain url where url: "snd (promises s ! promise (listeners s ! i)) = Fulfilled url"
    by blast
  let ?l = "listeners s ! i"
  have eff: "react i s =
      s\<lparr>pending := (pending s)(key ?l := None),
        received := (if cancelled ?l then received s else received s @ [(caller ?l, url)]),
        listeners := (listeners s)[i := ?l\<lparr>ran := True\<rparr>]\<rparr>"
    using True url by (simp add: react_def)
  from assms True have "key ?l = fst (promises s ! promise ?l)"
    by (simp add: cache_inv_def listeners_keyed_def)
  with assms True url have cached: "cache s (key ?l) \<noteq> None"
    by (auto simp: cache_inv_def fulfilled_cached_def)
  have 2: "fetched_known (react i s)"
    using assms cached by (auto simp: eff cache_inv_def fetched_known_def)
  have 3: "fulfilled_cached (react i s)"
    using assms by (simp add: eff cache_inv_def fulfilled_cached_def)
  have 4: "pending_keyed (react i s)"
    using assms by (auto simp: eff cache_inv_def pending_keyed_def)
  have 5: "listeners_keyed (react i s)"
    using assms True by (auto simp: eff cache_inv_def listeners_keyed_def nth_list_update)
  from assms 2 3 4 5 show ?thesis by (simp add: cache_inv_def eff)
qed

lemma inv_step: "cache_inv s \<Longrightarrow> cache_inv (cacheStep ev s)"
  by (cases ev) (simp_all add: inv_effect inv_cleanup inv_settle inv_react)

lemma inv_run: "cache_inv s \<Longrightarrow> cache_inv (cacheRun evs s)"
  by (induction evs arbitrary: s) (simp_all add: inv_step)

lemma distinct_keys_count:
  "distinct (map fst fs) \<Longrightarrow> length (filter (\<lambda>f. fst f = k) fs) \<le> 1"
proof (induction fs)
  case Nil
  then show ?case by simp
next
  case (Cons f fs)
  show ?case
  proof (cases "fst f = k")
    case True
    from Cons.prems have "fst f \<notin> fst ` set fs" by simp
    then have "\<forall>x\<in>set fs. fst x \<noteq> fst f" by (metis imageI)
    with True have "filter (\<lambda>f. fst f = k) fs = []"
      by (simp add: filter_empty_conv)
    with True show ?thesis by simp
  next
    case False
    with Cons show ?thesis by simp
  qed
qed

lemma at_most_one_fetch: "fetchCount k (cacheRun evs initCache) \<le> 1"
proof -
  have "distinct (map fst (fetches (cacheRun evs initCache)))"
    using inv_run [OF inv_init, of evs] by (simp add: cache_inv_def)
  then show ?thesis unfolding fetchCount_def by (rule distinct_keys_count)
qed


lemma first_get:
  assumes "cache s k = None" and "pending s k = None"
  shows "effect c k arg s =
     s\<lparr>fetches := fetches s @ [(k, arg)],
       promises := promises s @ [(k, InFlight)],
       pending := (pending s)(k \<mapsto> length (promises s)),
       listeners := listeners s
         @ [\<lparr>caller = c, promise = length (promises s), key = k, cancelled = False,
             ran = False\<rparr>]\<rparr>"
  using assms by (simp add: effect_def Let_def)

lemma attached_get:
  assumes "cache s k = None" and "pending s k = Some p"
  shows "effect c k arg s =
     s\<lparr>listeners := listeners s
         @ [\<lparr>caller = c, promise = p, key = k, cancelled = False, ran = False\<rparr>]\<rparr>"
  using assms by (simp add: effect_def)

lemma cached_get:
  assumes "cache s k = Some v"
  shows "effect c k arg s = s\<lparr>received := received s @ [(c, v)]\<rparr>"
  using assms by (simp add: effect_def)

lemma two_gets_then_resolution:
  fixes s :: CacheState and k a1 a2 :: int and c1 c2 :: nat
    and res :: "(string \<times> string) option Result"
  assumes "cache s k = None" and "pending s k = None"
  defines "s2 \<equiv> effect c2 k a2 (effect c1 k a1 s)"
  defines "s3 \<equiv> settle (length (promises s)) (CoverResult res) s2"
  defines "s5 \<equiv> react (Suc (length (listeners s))) (react (length (listeners s)) s3)"
  shows "fetches s2 = fetches s @ [(k, a1)]
    \<and> fetches s5 = fetches s2
    \<and> received s5 = received s @ [(c1, coverUrl res), (c2, coverUrl res)]
    \<and> cache s5 k = Some (coverUrl res)"
proof -
  let ?p = "length (promises s)" and ?n = "length (listeners s)"
  let ?l1 = "\<lparr>caller = c1, promise = ?p, key = k, cancelled = False, ran = False\<rparr>"
  let ?l2 = "\<lparr>caller = c2, promise = ?p, key = k, cancelled = False, ran = False\<rparr>"
  have s2: "s2 = s\<lparr>fetches := fetches s @ [(k, a1)],
                    promises := promises s @ [(k, InFlight)],
                    pending := (pending s)(k \<mapsto> ?p),
                    listeners := listeners s @ [?l1, ?l2]\<rparr>"
    unfolding s2_def using assms(1,2)
    by (simp add: first_get attached_get)
  have s3: "s3 = s\<lparr>fetches := fetches s @ [(k, a1)],
                    promises := promises s @ [(k, Fulfilled (coverUrl res))],
                    pending := (pending s)(k \<mapsto> ?p),
                    listeners := listeners s @ [?l1, ?l2],
                    cache := (cache s)(k \<mapsto> coverUrl res)\<rparr>"
    unfolding s3_def s2 by (simp add: settle_def)
  have s4: "react ?n s3 = s\<lparr>fetches := fetches s @ [(k, a1)],
                    promises := promises s @ [(k, Fulfilled (coverUrl res))],
                    pending := (pending s)(k := None),
                    listeners := listeners s @ [?l1\<lparr>ran := True\<rparr>, ?l2],
                    cache := (cache s)(k \<mapsto> coverUrl res),
                    received := received s @ [(c1, coverUrl res)]\<rparr>"
    unfolding s3 by (simp add: react_def nth_append)
  have s5: "s5 = s\<lparr>fetches := fetches s @ [(k, a1)],
                    promises := promises s @ [(k, Fulfilled (coverUrl res))],
                    pending := (pending s)(k := None),
                    listeners := listeners s @ [?l1\<lparr>ran := True\<rparr>, ?l2\<lparr>ran := True\<rparr>],
                    cache := (cache s)(k \<mapsto> coverUrl res),
                    received := received s @ [(c1, coverUrl res), (c2, coverUrl res)]\<rparr>"
    unfolding s5_def s4 by (simp add: react_def nth_append list_update_append)
  show ?thesis by (simp add: s2 s5)
qed

text \<open>
  Claim C8. Two effects for the same key, run before the key is resolved or in flight,
  issue exactly one command; when it resolves, both callers receive the same value; an
  effect run after the resolution issues no command and receives that value; and in every
  run of the hooks from the empty maps each key is fetched at most once.
\<close>

theorem dedup_cache_spec:
  "(cache s k = None \<and> pending s k = None \<longrightarrow>
      (let s2 = effect c2 k a2 (effect c1 k a1 s);
           s3 = settle (length (promises s)) (CoverResult res) s2;
           s5 = react (Suc (length (listeners s))) (react (length (listeners s)) s3)
       in fetches s2 = fetches s @ [(k, a1)]
          \<and> fetches s5 = fetches s2
          \<and> received s5 = received s @ [(c1, coverUrl res), (c2, coverUrl res)]
          \<and> fetches (effect c3 k a3 s5) = fetches s5
          \<and> received (effect c3 k a3 s5) = received s5 @ [(c3, coverUrl res)]))
   \<and> (cache s k \<noteq> None \<longrightarrow> fetches (effect c k arg s) = fetches s)
   \<and> fetchCount k (cacheRun evs initCache) \<le> 1"
proof -
  have a: "cache s k \<noteq> None \<longrightarrow> fetches (effect c k arg s) = fetches s"
    by (auto simp: cached_get)
  have b: "fetchCount k (cacheRun evs initCache) \<le> 1"
    by (rule at_most_one_fetch)
  have c: "cache s k = None \<and> pending s k = None \<longrightarrow>
      (let s2 = effect c2 k a2 (effect c1 k a1 s);
           s3 = settle (length (promises s)) (CoverResult res) s2;
           s5 = react (Suc (length (listeners s))) (react (length (listeners s)) s3)
       in fetches s2 = fetches s @ [(k, a1)]
          \<and> fetches s5 = fetches s2
          \<and> received s5 = received s @ [(c1, coverUrl res), (c2, coverUrl res)]
          \<and> fetches (effect c3 k a3 s5) = fetches s5
          \<and> received (effect c3 k a3 s5) = received s5 @ [(c3, coverUrl res)])"
  proof (intro impI)
    assume h: "cache s k = None \<and> pending s k = None"
    from h have h1: "cache s k = None" and h2: "pending s k = None" by simp_all
    note r = two_gets_then_resolution
      [where s = s and k = k and ?c1.0 = c1 and ?a1.0 = a1 and ?c2.0 = c2 and ?a2.0 = a2
         and res = res, OF h1 h2]
    from h r have "effect c3 k a3
        (react (Suc (length (listeners s))) (react (length (listeners s))
          (settle (length (promises s)) (CoverResult res) (effect c2 k a2 (effect c1 k a1 s)))))
      = (react (Suc (length (listeners s))) (react (length (listeners s))
          (settle (length (promises s)) (CoverResult res) (effect c2 k a2 (effect c1 k a1 s)))))
        \<lparr>received := received (react (Suc (length (listeners s))) (react (length (listeners s))
          (settle (length (promises s)) (CoverResult res) (effect c2 k a2 (effect c1 k a1 s)))))
           @ [(c3, coverUrl res)]\<rparr>"
      by (simp add: cached_get)
    with h r show "let s2 = effect c2 k a2 (effect c1 k a1 s);
           s3 = settle (length (promises s)) (CoverResult res) s2;
           s5 = react (Suc (length (listeners s))) (react (length (listeners s)) s3)
       in fetches s2 = fetches s @ [(k, a1)]
          \<and> fetches s5 = fetches s2
          \<and> received s5 = received s @ [(c1, coverUrl res), (c2, coverUrl res)]
          \<and> fetches (effect c3 k a3 s5) = fetches s5
          \<and> received (effect c3 k a3 s5) = received s5 @ [(c3, coverUrl res)]"
      by (simp add: Let_def)
  qed
  from a b c show ?thesis by blast
qed

text \<open>
  The theorem on the empty maps: two tracks of album 2 through \<open>useCoverArt\<close>, album 2
  twice through \<open>useAlbumCoverArt\<close>, and a third caller after the resolution.
\<close>

theorem dedup_cache_spec_witness:
  "cache initCache 2 = None \<and> pending initCache 2 = None
   \<and> coverKey 10 (Some 2) = 2 \<and> coverKey 11 (Some 2) = 2
   \<and> fetches (useCoverArtEffect 1 11 (Some 2) (useCoverArtEffect 0 10 (Some 2) initCache))
       = [(2, 10)]
   \<and> fetches (useAlbumCoverArtEffect 1 2 (useAlbumCoverArtEffect 0 2 initCache)) = [(2, 2)]
   \<and> received (cacheRun [Effect 0 2 10, Effect 1 2 11,
                           Settle 0 (CoverResult (StatusOk (Some (''image/png'', ''AAAA'')))),
                           React 0, React 1, Effect 2 2 12] initCache)
       = [(0, Some ''data:image/png;base64,AAAA''), (1, Some ''data:image/png;base64,AAAA''),
          (2, Some ''data:image/png;base64,AAAA'')]
   \<and> fetchCount 2 (cacheRun [Effect 0 2 10, Effect 1 2 11,
                           Settle 0 (CoverResult (StatusOk (Some (''image/png'', ''AAAA'')))),
                           React 0, React 1, Effect 2 2 12] initCache) = 1"
proof -
  have h: "cache initCache 2 = None \<and> pending initCache 2 = None"
    by (simp add: initCache_def)
  have k: "coverKey 10 (Some 2) = 2" "coverKey 11 (Some 2) = 2"
    by (simp_all add: coverKey_def)
  have l: "length (promises initCache) = 0" "length (listeners initCache) = 0"
    "fetches initCache = []" "received initCache = []"
    by (simp_all add: initCache_def)
  have u: "coverUrl (StatusOk (Some (''image/png'', ''AAAA''))) = Some ''data:image/png;base64,AAAA''"
    by (simp add: coverUrl_def)
  from dedup_cache_spec [of initCache 2 1 11 0 10 "StatusOk (Some (''image/png'', ''AAAA''))"
      2 12 0 0 "[]"] h
  have "let s2 = effect 1 2 11 (effect 0 2 10 initCache);
           s3 = settle (length (promises initCache))
                  (CoverResult (StatusOk (Some (''image/png'', ''AAAA'')))) s2;
           s5 = react (Suc (length (listeners initCache)))
                  (react (length (listeners initCache)) s3)
       in fetches s2 = fetches initCache @ [(2, 10)]
          \<and> fetches s5 = fetches s2
          \<and> received s5 = received initCache
               @ [(0, coverUrl (StatusOk (Some (''image/png'', ''AAAA'')))),
                  (1, coverUrl (StatusOk (Some (''image/png'', ''AAAA''))))]
          \<and> fetches (effect 2 2 12 s5) = fetches s5
          \<and> received (effect 2 2 12 s5) = received s5
               @ [(2, coverUrl (StatusOk (Some (''image/png'', ''AAAA''))))]"
    by blast
  then have m: "fetches (effect 1 2 11 (effect 0 2 10 initCache)) = [(2, 10)]"
    "received (cacheRun [Effect 0 2 10, Effect 1 2 11,
                           Settle 0 (CoverResult (StatusOk (Some (''image/png'', ''AAAA'')))),
                           React 0, React 1, Effect 2 2 12] initCache)
       = [(0, Some ''data:image/png;base64,AAAA''), (1, Some ''data:image/png;base64,AAAA''),
          (2, Some ''data:image/png;base64,AAAA'')]"
    "fetches (cacheRun [Effect 0 2 10, Effect 1 2 11,
                           Settle 0 (CoverResult (StatusOk (Some (''image/png'', ''AAAA'')))),
                           React 0, React 1, Effect 2 2 12] initCache) = [(2, 10)]"
    by (simp_all add: Let_def l u)
  have a: "fetches (useAlbumCoverArtEffect 1 2 (useAlbumCoverArtEffect 0 2 initCache)) = [(2, 2)]"
    by (simp add: useAlbumCoverArtEffect_def effect_def initCache_def)
  from m k a h show ?thesis
    by (simp add: useCoverArtEffect_def fetchCount_def)
qed


end
